(* ===== verification/Prelude.thy ===== *)
theory Prelude
  imports Complex_Main "HOL-Library.Word" "HOL-Library.Multiset" "HOL-Library.Code_Target_Numeral"
begin

text \<open>
  Shared vocabulary of the development: the machine-integer and time types of the Rust
  sources, the outcome types (panic, error), \<open>std::cmp::Ordering\<close> with the two
  comparator-driven operations the sources use (\<open>Iterator::min_by\<close>,
  \<open>slice::sort_by\<close>), and the integer arithmetic the floating-point theory rests on
  (bit lengths, division rounded half to even).
\<close>

section \<open>Machine integers, time, outcomes\<close>

type_synonym u16 = "16 word"
type_synonym u32 = "32 word"
type_synonym u64 = "64 word"

text \<open>
  \<open>std::time::Instant\<close> is a point on a monotonic clock and \<open>std::time::Duration\<close> a
  length of time; both are counted in nanoseconds. \<open>Instant::duration_since\<close> saturates
  at zero, which is what subtraction on \<open>nat\<close> does.
\<close>

type_synonym instant = nat
type_synonym duration = nat

definition from_secs :: "nat \<Rightarrow> duration" where
  "from_secs s = s * 10 ^ 9"

lemma from_secs_code [code]: "from_secs s = nat (int s * 1000000000)"
  by (simp add: from_secs_def)

definition from_millis :: "nat \<Rightarrow> duration" where
  "from_millis ms = ms * 10 ^ 6"

definition duration_since :: "instant \<Rightarrow> instant \<Rightarrow> duration" where
  "duration_since later earlier = later - earlier"

text \<open>A call that may panic: \<open>Panic\<close> ends the task that made it.\<close>

datatype 'a outcome = Panic | Done 'a

fun bind_outcome :: "'a outcome \<Rightarrow> ('a \<Rightarrow> 'b outcome) \<Rightarrow> 'b outcome" where
  "bind_outcome Panic f = Panic"
| "bind_outcome (Done x) f = f x"

lemma bind_outcome_assoc: "bind_outcome (bind_outcome x f) g = bind_outcome x (\<lambda>y. bind_outcome (f y) g)"
  by (cases x) simp_all

lemma bind_outcome_DoneE:
  assumes "bind_outcome x f = Done y"
  obtains z where "x = Done z" "f z = Done y"
  using assms by (cases x) auto

named_theorems rust_defs \<open>definitions that evaluate by unfolding\<close>

declare from_secs_def [rust_defs] from_millis_def [rust_defs] duration_since_def [rust_defs]

section \<open>Comparisons\<close>

datatype ordering = Less | Equal | Greater

fun then_cmp :: "ordering \<Rightarrow> ordering \<Rightarrow> ordering" where
  "then_cmp Equal d = d"
| "then_cmp c d = c"

definition cmp :: "'a::linorder \<Rightarrow> 'a \<Rightarrow> ordering" where
  "cmp a b = (if a < b then Less else if a = b then Equal else Greater)"

lemma cmp_simps [simp]:
  "cmp a b = Less \<longleftrightarrow> a < b"
  "cmp a b = Equal \<longleftrightarrow> a = b"
  "cmp a b = Greater \<longleftrightarrow> b < a"
  by (auto simp: cmp_def)

lemma then_cmp_simps [simp]:
  "then_cmp c d = Less \<longleftrightarrow> c = Less \<or> (c = Equal \<and> d = Less)"
  "then_cmp c d = Equal \<longleftrightarrow> c = Equal \<and> d = Equal"
  "then_cmp c d = Greater \<longleftrightarrow> c = Greater \<or> (c = Equal \<and> d = Greater)"
  by (cases c; simp)+

text \<open>
  \<open>Iterator::min_by\<close> folds with the comparator and keeps the earlier element unless the
  later one is strictly smaller.
\<close>

fun min_by :: "('a \<Rightarrow> 'a \<Rightarrow> ordering) \<Rightarrow> 'a list \<Rightarrow> 'a option" where
  "min_by c [] = None"
| "min_by c (x # xs) = Some (foldl (\<lambda>m y. if c m y = Greater then y else m) x xs)"

lemma min_by_None [simp]: "min_by c xs = None \<longleftrightarrow> xs = []"
  by (cases xs) auto

text \<open>For a comparator given by a key, the fold returns the first element of least key.\<close>

lemma foldl_min_first:
  fixes f :: "'a \<Rightarrow> 'k::linorder"
  shows "\<exists>as bs. x # xs = as @ foldl (\<lambda>m y. if f y < f m then y else m) x xs # bs
    \<and> (\<forall>a\<in>set as. f (foldl (\<lambda>m y. if f y < f m then y else m) x xs) < f a)
    \<and> (\<forall>b\<in>set bs. f (foldl (\<lambda>m y. if f y < f m then y else m) x xs) \<le> f b)"
proof (induction xs rule: rev_induct)
  case Nil
  show ?case by (intro exI [of _ "[]"]) simp
next
  case (snoc y ys)
  let ?m = "foldl (\<lambda>m y. if f y < f m then y else m) x ys"
  from snoc.IH obtain as bs where split: "x # ys = as @ ?m # bs"
    and lt: "\<forall>a\<in>set as. f ?m < f a" and le: "\<forall>b\<in>set bs. f ?m \<le> f b" by blast
  show ?case
  proof (cases "f y < f ?m")
    case True
    have "\<forall>a\<in>set (x # ys). f y < f a"
      unfolding split using lt le True by (auto dest: less_le_trans less_trans)
    with True show ?thesis by (intro exI [of _ "x # ys"] exI [of _ "[]"]) simp
  next
    case False
    with split lt le show ?thesis
      by (intro exI [of _ as] exI [of _ "bs @ [y]"]) auto
  qed
qed

lemma min_by_first:
  fixes f :: "'a \<Rightarrow> 'k::linorder"
  assumes m: "min_by c xs = Some m" and key: "\<And>a b. c a b = Greater \<longleftrightarrow> f b < f a"
  obtains as bs where "xs = as @ m # bs" "\<forall>a\<in>set as. f m < f a" "\<forall>b\<in>set bs. f m \<le> f b"
proof (cases xs)
  case Nil
  with m show ?thesis by simp
next
  case (Cons y ys)
  with m key have m: "m = foldl (\<lambda>m z. if f z < f m then z else m) y ys" by simp
  from foldl_min_first [of y ys f] obtain as bs where "y # ys = as @ m # bs"
    "\<forall>a\<in>set as. f m < f a" "\<forall>b\<in>set bs. f m \<le> f b"
    unfolding m by blast
  with Cons that show ?thesis by simp
qed

text \<open>
  \<open>slice::sort_by\<close> is a stable sort. The model is stable insertion from the right; for a
  comparator given by a key it is the library's stable \<open>sort_key\<close>.
\<close>

fun insert_by :: "('a \<Rightarrow> 'a \<Rightarrow> ordering) \<Rightarrow> 'a \<Rightarrow> 'a list \<Rightarrow> 'a list" where
  "insert_by c x [] = [x]"
| "insert_by c x (y # ys) = (if c x y = Greater then y # insert_by c x ys else x # y # ys)"

definition sort_by :: "('a \<Rightarrow> 'a \<Rightarrow> ordering) \<Rightarrow> 'a list \<Rightarrow> 'a list" where
  "sort_by c xs = foldr (insert_by c) xs []"

lemma insert_by_key:
  assumes "\<And>a b. c a b = Greater \<longleftrightarrow> f b < f a"
  shows "insert_by c x ys = insort_key f x ys"
  using assms by (induction ys) (auto simp: not_less)

lemma sort_by_key:
  assumes "\<And>a b. c a b = Greater \<longleftrightarrow> f b < f a"
  shows "sort_by c xs = sort_key f xs"
proof -
  have "insert_by c = insort_key f" using insert_by_key [OF assms] by (intro ext)
  then show ?thesis by (simp add: sort_by_def sort_key_def)
qed

section \<open>Bit lengths and division rounded half to even\<close>

fun bit_len :: "nat \<Rightarrow> nat" where
  "bit_len n = (if n = 0 then 0 else Suc (bit_len (n div 2)))"

declare bit_len.simps [simp del]

lemma bit_len_0 [simp]: "bit_len 0 = 0"
  by (simp add: bit_len.simps)

lemma bit_len_1 [simp]: "bit_len (Suc 0) = 1" "bit_len 1 = 1"
  by (simp_all add: bit_len.simps)

lemma bit_len_bounds: "0 < n \<Longrightarrow> 2 ^ (bit_len n - 1) \<le> n \<and> n < 2 ^ bit_len n \<and> 0 < bit_len n"
proof (induction n rule: bit_len.induct)
  case (1 n)
  show ?case
  proof (cases "n = 1")
    case True
    then show ?thesis by simp
  next
    case False
    with "1.prems" have pos: "0 < n div 2" by arith
    with "1.IH" "1.prems" have ih: "2 ^ (bit_len (n div 2) - 1) \<le> n div 2"
      "n div 2 < 2 ^ bit_len (n div 2)" "0 < bit_len (n div 2)" by auto
    have len: "bit_len n = Suc (bit_len (n div 2))"
      using "1.prems" by (subst bit_len.simps) simp
    from ih(3) have "(2::nat) ^ bit_len (n div 2) = 2 * 2 ^ (bit_len (n div 2) - 1)"
      by (cases "bit_len (n div 2)") auto
    with ih(1) have "2 ^ bit_len (n div 2) \<le> n" by linarith
    moreover from ih(2) have "n < 2 * 2 ^ bit_len (n div 2)" by linarith
    ultimately show ?thesis using len by simp
  qed
qed

text \<open>The bit length of a numeral, read off its binary representation.\<close>

primrec num_len :: "num \<Rightarrow> nat" where
  "num_len num.One = 1"
| "num_len (num.Bit0 n) = num_len n + 1"
| "num_len (num.Bit1 n) = num_len n + 1"

lemma div_2_of_double: "x = y + y \<Longrightarrow> x div 2 = y" "x = y + y + 1 \<Longrightarrow> x div 2 = y" for x y :: nat
  by simp_all

lemma bit_len_numeral [simp]: "bit_len (numeral n) = num_len n"
proof (induction n)
  case One
  show ?case by simp
next
  case (Bit0 n)
  have "bit_len (numeral (num.Bit0 n)) = Suc (bit_len (numeral (num.Bit0 n) div 2))"
    by (subst bit_len.simps) (simp only: zero_neq_numeral [symmetric] if_False)
  also have "numeral (num.Bit0 n) div 2 = (numeral n :: nat)"
    by (rule div_2_of_double(1) [OF numeral_Bit0])
  finally show ?case using Bit0 by simp
next
  case (Bit1 n)
  have "bit_len (numeral (num.Bit1 n)) = Suc (bit_len (numeral (num.Bit1 n) div 2))"
    by (subst bit_len.simps) (simp only: zero_neq_numeral [symmetric] if_False)
  also have "numeral (num.Bit1 n) div 2 = (numeral n :: nat)"
    by (rule div_2_of_double(2) [OF numeral_Bit1])
  finally show ?case using Bit1 by simp
qed

text \<open>
  Code equations that read the bit length off the binary numeral, so that evaluation in the
  kernel does not divide repeatedly.
\<close>

definition integer_len :: "integer \<Rightarrow> nat" where
  "integer_len k = bit_len (nat_of_integer k)"

lemma integer_len_code [code]:
  "integer_len 0 = 0"
  "integer_len (Code_Numeral.Pos n) = num_len n"
  "integer_len (Code_Numeral.Neg n) = 0"
  by (simp_all add: integer_len_def nat_of_integer_def)

lemma bit_len_code [code]: "bit_len n = integer_len (integer_of_nat n)"
  by (simp add: integer_len_def)

text \<open>Powers of two by squaring, on integers.\<close>

function pow2 :: "int \<Rightarrow> int" where
  "pow2 k = (if k \<le> 0 then 1 else let h = pow2 (k div 2) in if even k then h * h else 2 * (h * h))"
  by pat_completeness auto
termination by (relation "measure nat") auto

declare pow2.simps [simp del]

lemma pow2_eq: "pow2 k = 2 ^ nat k"
proof (induction k rule: pow2.induct)
  case (1 k)
  show ?case
  proof (cases "k \<le> 0")
    case False
    then have "nat k = 2 * nat (k div 2) + (if even k then 0 else 1)" by (auto elim: evenE oddE)
    with False 1 show ?thesis
      by (simp add: pow2.simps [of k] Let_def power_add power2_eq_square flip: power_mult_distrib power_mult)
        (simp add: power_mult power2_eq_square power_mult_distrib mult.assoc)
  qed (simp add: pow2.simps [of k])
qed

lemma take_bit_int_code [code]: "take_bit n (k :: int) = k mod pow2 (int n)"
  by (simp add: take_bit_eq_mod pow2_eq)

definition div_round_even :: "nat \<Rightarrow> nat \<Rightarrow> nat" where
  "div_round_even n d =
     (let q = n div d; r = n mod d
      in if 2 * r < d \<or> (2 * r = d \<and> even q) then q else Suc q)"

text \<open>The rounded quotient is within one half of the exact one.\<close>

lemma div_round_even_cases:
  obtains q r where "n = d * q + r" "r = n mod d" "q = n div d"
    "div_round_even n d = (if 2 * r < d \<or> (2 * r = d \<and> even q) then q else Suc q)"
  by (rule that [of "n div d" "n mod d"]) (simp_all add: div_round_even_def Let_def)

lemma div_round_even_bounds:
  assumes "0 < d"
  shows "2 * (d * div_round_even n d) \<le> 2 * n + d" "2 * n \<le> 2 * (d * div_round_even n d) + d"
proof -
  obtain q r where n: "n = d * q + r" and r: "r = n mod d"
    and v: "div_round_even n d = (if 2 * r < d \<or> (2 * r = d \<and> even q) then q else Suc q)"
    by (rule div_round_even_cases)
  have "r < d" using assms r by simp
  then show "2 * (d * div_round_even n d) \<le> 2 * n + d"
    "2 * n \<le> 2 * (d * div_round_even n d) + d"
    unfolding v using n by auto
qed

lemma div_round_even_exact [simp]: "0 < d \<Longrightarrow> div_round_even (d * q) d = q"
  by (simp add: div_round_even_def)

lemma div_round_even_1 [simp]: "div_round_even n (Suc 0) = n" "div_round_even n 1 = n"
  by (simp_all add: div_round_even_def)

lemma div_round_even_scale:
  assumes "0 < c"
  shows "div_round_even (n * c) (d * c) = div_round_even n d"
proof -
  have r: "n * c mod (d * c) = n mod d * c" and q: "n * c div (d * c) = n div d"
    using assms by (simp_all add: mult_mod_left)
  have "2 * (n mod d * c) < d * c \<longleftrightarrow> 2 * (n mod d) < d"
    using assms by (metis mult.assoc mult_less_cancel2)
  moreover have "2 * (n mod d * c) = d * c \<longleftrightarrow> 2 * (n mod d) = d"
    using assms by (metis mult.assoc mult_cancel2 less_numeral_extra(3))
  ultimately show ?thesis unfolding div_round_even_def Let_def r q by simp
qed

end
