(* ===== verification/F64.thy ===== *)
theory F64
  imports Prelude
begin

text \<open>
  Rust's \<open>f64\<close> as its 64 bits (IEEE 754 binary64), executable: classification,
  \<open>f64::total_cmp\<close>, the IEEE comparisons behind \<open>==\<close> and \<open><\<close>, addition,
  subtraction, multiplication, division, \<open>round\<close>, \<open>min\<close>, \<open>max\<close> and the integer
  casts. Finite values are read as exact integers in units of \<open>2\<^sup>-\<^sup>1\<^sup>0\<^sup>7\<^sup>4\<close>, the least positive
  value, so every operation is an exact rational computation followed by one rounding
  (to nearest, ties to even). The payload of a computed NaN, which Rust leaves open, is the
  quiet NaN \<open>0x7ff8000000000000\<close>.
\<close>

type_synonym f64 = "64 word"

section \<open>Fields and classes\<close>

definition f64_neg :: "f64 \<Rightarrow> bool" where
  "f64_neg x \<longleftrightarrow> 2 ^ 63 \<le> unat x"

definition abs_bits :: "f64 \<Rightarrow> nat" where
  "abs_bits x = unat x mod 2 ^ 63"

definition inf_bits :: nat where
  "inf_bits = 2047 * 2 ^ 52"

definition is_nan :: "f64 \<Rightarrow> bool" where
  "is_nan x \<longleftrightarrow> inf_bits < abs_bits x"

definition is_inf :: "f64 \<Rightarrow> bool" where
  "is_inf x \<longleftrightarrow> abs_bits x = inf_bits"

definition is_finite :: "f64 \<Rightarrow> bool" where
  "is_finite x \<longleftrightarrow> abs_bits x < inf_bits"

definition is_zero :: "f64 \<Rightarrow> bool" where
  "is_zero x \<longleftrightarrow> abs_bits x = 0"

text \<open>A finite value is \<open>\<plusminus> mant x * 2 ^ scl x\<close> in units of \<open>2\<^sup>-\<^sup>1\<^sup>0\<^sup>7\<^sup>4\<close>.\<close>

definition bits_mant :: "nat \<Rightarrow> nat" where
  "bits_mant b = (if b < 2 ^ 52 then b else 2 ^ 52 + b mod 2 ^ 52)"

definition bits_scl :: "nat \<Rightarrow> nat" where
  "bits_scl b = b div 2 ^ 52 - 1"

definition mant :: "f64 \<Rightarrow> nat" where
  "mant x = bits_mant (abs_bits x)"

definition scl :: "f64 \<Rightarrow> nat" where
  "scl x = bits_scl (abs_bits x)"

definition f64_make :: "bool \<Rightarrow> nat \<Rightarrow> f64" where
  "f64_make s b = word_of_nat (b + (if s then 2 ^ 63 else 0))"

text \<open>In this form evaluation stores a computed pattern as one integer numeral.\<close>

lemma f64_make_code [code]:
  "f64_make s b = word_of_int (int b + (if s then 0x8000000000000000 else 0))"
  by (simp add: f64_make_def)

lemma inf_bits_code [code]: "inf_bits = 0x7ff0000000000000"
  by (simp add: inf_bits_def)

definition f64_nan :: f64 where
  "f64_nan = 0x7ff8000000000000"

definition f64_inf :: "bool \<Rightarrow> f64" where
  "f64_inf s = f64_make s inf_bits"

definition f64_zero :: "bool \<Rightarrow> f64" where
  "f64_zero s = f64_make s 0"

declare f64_neg_def [rust_defs] abs_bits_def [rust_defs] inf_bits_def [rust_defs]
  is_nan_def [rust_defs] is_inf_def [rust_defs] is_finite_def [rust_defs] is_zero_def [rust_defs]
  bits_mant_def [rust_defs] bits_scl_def [rust_defs] mant_def [rust_defs] scl_def [rust_defs]
  f64_make_def [rust_defs] f64_nan_def [rust_defs] f64_inf_def [rust_defs] f64_zero_def [rust_defs]

lemma unat_lt_64: "unat (x :: f64) < 2 ^ 64"
  using unsigned_less [of x, where ?'a = nat] by simp

lemma unat_split: "unat x = abs_bits x + (if f64_neg x then 2 ^ 63 else 0)"
  using unat_lt_64 [of x] by (auto simp: abs_bits_def f64_neg_def mod_if)

lemma abs_bits_lt: "abs_bits x < 2 ^ 63"
  by (simp add: abs_bits_def)

lemma f64_make_inverse [simp]: "f64_make (f64_neg x) (abs_bits x) = x"
  unfolding f64_make_def by (subst unat_split [symmetric]) simp

lemma unat_of_nat_64: "n < 2 ^ 64 \<Longrightarrow> unat (word_of_nat n :: f64) = n"
  by (simp only: unsigned_of_nat) (simp add: take_bit_nat_eq_self)

lemma unat_f64_make: "b < 2 ^ 63 \<Longrightarrow> unat (f64_make s b) = b + (if s then 2 ^ 63 else 0)"
  unfolding f64_make_def by (subst unat_of_nat_64) auto

lemma abs_bits_f64_make [simp]: "b < 2 ^ 63 \<Longrightarrow> abs_bits (f64_make s b) = b"
  by (simp add: abs_bits_def unat_f64_make)

lemma f64_neg_f64_make [simp]: "b < 2 ^ 63 \<Longrightarrow> f64_neg (f64_make s b) = s"
  by (simp add: f64_neg_def unat_f64_make)

lemma f64_eqI: "f64_neg x = f64_neg y \<Longrightarrow> abs_bits x = abs_bits y \<Longrightarrow> x = y"
  by (subst f64_make_inverse [symmetric, of x], subst f64_make_inverse [symmetric, of y]) (simp only:)

lemma inf_bits_lt [simp]: "inf_bits < 2 ^ 63" "0 < inf_bits" "inf_bits \<noteq> 0"
  by (simp_all add: inf_bits_def)

lemma is_finite_iff: "is_finite x \<longleftrightarrow> \<not> is_nan x \<and> \<not> is_inf x"
  by (auto simp: is_finite_def is_nan_def is_inf_def)

lemma f64_neg_code [code]: "f64_neg x \<longleftrightarrow> 0x8000000000000000 \<le> uint x"
proof -
  have "(0x8000000000000000 :: int) = int (2 ^ 63)" by simp
  then show ?thesis by (simp only: f64_neg_def uint_nat of_nat_le_iff)
qed

lemma abs_bits_code [code]: "abs_bits x = nat (uint x mod 0x8000000000000000)"
proof -
  have c: "(0x8000000000000000 :: int) = 2 ^ 63" by simp
  have "uint x mod 2 ^ 63 = int (unat x mod 2 ^ 63)"
    by (simp only: zmod_int uint_nat of_nat_power of_nat_numeral)
  then show ?thesis by (simp only: abs_bits_def nat_int c)
qed

lemma bits_mant_code [code]:
  "bits_mant b = nat (let k = int b
     in if k < 0x10000000000000 then k else 0x10000000000000 + k mod 0x10000000000000)"
proof -
  have "int b < 0x10000000000000 \<longleftrightarrow> b < 2 ^ 52" by simp
  moreover have "nat (0x10000000000000 + int b mod 0x10000000000000) = 2 ^ 52 + b mod 2 ^ 52"
    by (simp add: nat_add_distrib nat_mod_distrib)
  ultimately show ?thesis by (simp add: bits_mant_def Let_def)
qed

lemma bits_scl_code [code]: "bits_scl b = nat (int b div 0x10000000000000 - 1)"
  by (simp add: bits_scl_def nat_diff_distrib' nat_div_distrib)

section \<open>Comparisons\<close>

text \<open>
  \<open>f64::total_cmp\<close> compares the bit patterns as signed integers after flipping all bits
  but the sign of negative ones:
  \<^verbatim>\<open>left ^= (((left >> 63) as u64) >> 1) as i64;\<close>
\<close>

definition total_key :: "f64 \<Rightarrow> int" where
  "total_key x = sint (xor x (drop_bit 1 (signed_drop_bit 63 x)))"

definition total_cmp :: "f64 \<Rightarrow> f64 \<Rightarrow> ordering" where
  "total_cmp x y = cmp (total_key x) (total_key y)"

text \<open>The IEEE comparisons: false on NaN, and the two zeros are equal.\<close>

definition ieee_key :: "f64 \<Rightarrow> int" where
  "ieee_key x = (if f64_neg x then - int (abs_bits x) else int (abs_bits x))"

definition feq :: "f64 \<Rightarrow> f64 \<Rightarrow> bool" where
  "feq x y \<longleftrightarrow> \<not> is_nan x \<and> \<not> is_nan y \<and> ieee_key x = ieee_key y"

definition flt :: "f64 \<Rightarrow> f64 \<Rightarrow> bool" where
  "flt x y \<longleftrightarrow> \<not> is_nan x \<and> \<not> is_nan y \<and> ieee_key x < ieee_key y"

definition fle :: "f64 \<Rightarrow> f64 \<Rightarrow> bool" where
  "fle x y \<longleftrightarrow> \<not> is_nan x \<and> \<not> is_nan y \<and> ieee_key x \<le> ieee_key y"

definition fmin :: "f64 \<Rightarrow> f64 \<Rightarrow> f64" where
  "fmin x y = (if is_nan x then y else if is_nan y then x else if flt y x then y else x)"

definition fmax :: "f64 \<Rightarrow> f64 \<Rightarrow> f64" where
  "fmax x y = (if is_nan x then y else if is_nan y then x else if flt x y then y else x)"

declare ieee_key_def [rust_defs] feq_def [rust_defs] flt_def [rust_defs] fle_def [rust_defs]
  fmin_def [rust_defs] fmax_def [rust_defs]

lemma unat_take_bit_63: "unat (take_bit 63 x) = abs_bits (x :: f64)"
proof -
  have "unat (take_bit 63 x) = take_bit 63 (unat x)" by (rule unsigned_take_bit_eq)
  then show ?thesis by (simp only: abs_bits_def take_bit_eq_mod)
qed

lemma f64_neg_bit: "f64_neg x \<longleftrightarrow> bit x 63"
proof -
  have "bit x 63 \<longleftrightarrow> bit (unat x) 63" by (simp add: bit_unsigned_iff)
  also have "\<dots> \<longleftrightarrow> odd (unat x div 2 ^ 63)" by (rule bit_iff_odd)
  also have "\<dots> \<longleftrightarrow> f64_neg x"
  proof (cases "f64_neg x")
    case True
    then have "unat x div 2 ^ 63 = 1"
      using unat_split [of x] abs_bits_lt [of x] by simp
    with True show ?thesis by simp
  next
    case False
    then have "unat x div 2 ^ 63 = 0" by (simp add: f64_neg_def)
    with False show ?thesis by simp
  qed
  finally show ?thesis by simp
qed

lemma sint_take_bit_63: "sint (take_bit 63 x) = int (abs_bits (x :: f64))"
proof -
  have "sint (take_bit 63 x) = signed_take_bit 63 (uint (take_bit 63 x))" by (simp add: sint_uint)
  also have "uint (take_bit 63 x) = int (abs_bits x)"
    by (simp only: unat_take_bit_63 [symmetric] uint_nat)
  also have "signed_take_bit 63 (int (abs_bits x)) = int (abs_bits x)"
    using abs_bits_lt [of x] by (intro signed_take_bit_int_eq_self) auto
  finally show ?thesis .
qed

text \<open>The bit trick computes this: non-negative patterns in order, negative ones reversed below.\<close>

lemma total_key_eq [code]:
  "total_key x = (if f64_neg x then - 1 - int (abs_bits x) else int (abs_bits x))"
proof -
  let ?z = "take_bit 63 x"
  have top: "n = 63" if "n < 64" "\<not> n < 63" for n :: nat
    using that by simp
  have nbit: "signed_drop_bit 63 x = (if bit x 63 then - 1 else 0)"
    by (rule bit_word_eqI) (auto simp: bit_simps not_le)
  show ?thesis
  proof (cases "f64_neg x")
    case True
    then have b: "bit x 63" by (simp add: f64_neg_bit)
    have "xor x (drop_bit 1 (- 1)) = not ?z"
      by (rule bit_word_eqI) (use b in \<open>auto simp: bit_simps dest: top\<close>)
    then have "total_key x = sint (not ?z)" using b by (simp add: total_key_def nbit)
    also have "\<dots> = signed_take_bit 64 (- sint ?z - 1)"
      by (simp only: signed_not_eq) (simp add: not_eq_complement)
    also have "\<dots> = - sint ?z - 1"
      using abs_bits_lt [of x]
      by (intro signed_take_bit_int_eq_self) (simp_all add: sint_take_bit_63)
    finally show ?thesis using True by (simp add: sint_take_bit_63)
  next
    case False
    then have b: "\<not> bit x 63" by (simp add: f64_neg_bit)
    have "x = ?z"
      by (rule bit_word_eqI) (use b in \<open>auto simp: bit_simps dest: top\<close>)
    then have "total_key x = sint ?z" using b by (simp add: total_key_def nbit)
    then show ?thesis using False by (simp add: sint_take_bit_63)
  qed
qed

text \<open>
  \<open>total_cmp\<close> is a linear order on bit patterns: the key is injective.
\<close>

lemma total_key_inject [simp]: "total_key x = total_key y \<longleftrightarrow> x = y"
proof
  assume "total_key x = total_key y"
  then have "f64_neg x = f64_neg y \<and> abs_bits x = abs_bits y"
    by (auto simp: total_key_eq split: if_splits)
  then show "x = y" by (blast intro: f64_eqI)
qed simp

lemma total_cmp_simps [simp]:
  "total_cmp x y = Less \<longleftrightarrow> total_key x < total_key y"
  "total_cmp x y = Equal \<longleftrightarrow> x = y"
  "total_cmp x y = Greater \<longleftrightarrow> total_key y < total_key x"
  by (simp_all add: total_cmp_def)

text \<open>On values other than NaN the total order refines the IEEE order, and splits only zeros.\<close>

lemma flt_total_key: "flt x y \<Longrightarrow> total_key x < total_key y"
  by (auto simp: flt_def ieee_key_def total_key_eq split: if_splits)

lemma total_key_fle: "total_key x \<le> total_key y \<Longrightarrow> \<not> is_nan x \<Longrightarrow> \<not> is_nan y \<Longrightarrow> fle x y"
  by (auto simp: fle_def ieee_key_def total_key_eq split: if_splits)

lemma ieee_key_eq_iff: "ieee_key x = ieee_key y \<longleftrightarrow> x = y \<or> (is_zero x \<and> is_zero y)"
  by (auto simp: ieee_key_def is_zero_def intro: f64_eqI split: if_splits)

lemma feq_iff: "feq x y \<longleftrightarrow> \<not> is_nan x \<and> \<not> is_nan y \<and> (x = y \<or> (is_zero x \<and> is_zero y))"
  by (simp add: feq_def ieee_key_eq_iff)

lemma feq_refl_iff [simp]: "feq x x \<longleftrightarrow> \<not> is_nan x"
  by (simp add: feq_def)

lemma feq_sym: "feq x y \<Longrightarrow> feq y x"
  by (auto simp: feq_def)

lemma feq_trans: "feq x y \<Longrightarrow> feq y z \<Longrightarrow> feq x z"
  by (simp add: feq_def)

section \<open>Rounding and arithmetic\<close>

text \<open>
  \<open>round_ratio n d e\<close> is the bit pattern, without sign, of the double nearest to
  \<open>n / d * 2\<^sup>e\<close> units of \<open>2\<^sup>-\<^sup>1\<^sup>0\<^sup>7\<^sup>4\<close>: choose the binary exponent \<open>k\<close> that leaves a quotient
  below \<open>2\<^sup>5\<^sup>3\<close>, round that quotient to an integer, and add it to the exponent field; a carry
  out of the significand lands in the exponent as it should, and what is past the largest
  finite pattern is infinity.
\<close>

definition round_scale :: "nat \<Rightarrow> nat \<Rightarrow> int \<Rightarrow> nat" where
  "round_scale n d e =
     (let j = 53 + int (bit_len d) - int (bit_len n); k = e - j
      in nat (if n * 2 ^ nat j < d * 2 ^ 53 * 2 ^ nat (- j) then k else k + 1))"

definition round_ratio :: "nat \<Rightarrow> nat \<Rightarrow> int \<Rightarrow> nat" where
  "round_ratio n d e =
     (if n = 0 then 0
      else let k = round_scale n d e;
               b = div_round_even (n * 2 ^ nat (e - int k)) (d * 2 ^ nat (int k - e)) + k * 2 ^ 52
           in min b inf_bits)"

text \<open>The same computation on integers, for evaluation in the kernel.\<close>

definition round_int :: "int \<Rightarrow> int \<Rightarrow> int \<Rightarrow> int" where
  "round_int n d e =
     (if n = 0 then 0
      else let j = 53 + int (bit_len (nat d)) - int (bit_len (nat n));
               k = max 0 (if n * pow2 j < d * pow2 53 * pow2 (- j) then e - j else e - j + 1);
               a = n * pow2 (e - k); c = d * pow2 (k - e); q = a div c; r = a mod c;
               b = (if 2 * r < c \<or> (2 * r = c \<and> even q) then q else q + 1) + k * pow2 52
           in min b (2047 * pow2 52))"

lemma round_int_code [code]:
  "round_int n d e =
     (if n = 0 then 0
      else let j = 53 + int (bit_len (nat d)) - int (bit_len (nat n));
               k = max 0 (if n * pow2 j < d * pow2 53 * pow2 (- j) then e - j else e - j + 1);
               a = n * pow2 (e - k); c = d * pow2 (k - e); q = a div c; r = a - q * c;
               b = (if 2 * r < c \<or> (2 * r = c \<and> even q) then q else q + 1) + k * pow2 52
           in min b (2047 * pow2 52))"
  unfolding round_int_def Let_def minus_div_mult_eq_mod ..

lemma pow2_52: "pow2 52 = 2 ^ 52" and pow2_53: "pow2 53 = 2 ^ 53"
  by (simp_all only: pow2_eq nat_numeral)

lemma int_div_round_even:
  "int (div_round_even n d) =
     (let q = int n div int d; r = int n mod int d
      in if 2 * r < int d \<or> (2 * r = int d \<and> even q) then q else q + 1)"
proof -
  have q: "int n div int d = int (n div d)" "int n mod int d = int (n mod d)"
    by (simp_all add: zdiv_int zmod_int)
  have "2 * int (n mod d) < int d \<longleftrightarrow> 2 * (n mod d) < d"
    "2 * int (n mod d) = int d \<longleftrightarrow> 2 * (n mod d) = d" by linarith+
  then show ?thesis unfolding div_round_even_def Let_def q by simp
qed

lemma int_round_scale:
  "int (round_scale n d e) =
     (let j = 53 + int (bit_len d) - int (bit_len n)
      in max 0 (if int n * 2 ^ nat j < int d * 2 ^ 53 * 2 ^ nat (- j) then e - j else e - j + 1))"
proof -
  have less: "int n * 2 ^ a < int d * 2 ^ 53 * 2 ^ b \<longleftrightarrow> n * 2 ^ a < d * 2 ^ 53 * 2 ^ b" for a b
  proof -
    have "int n * 2 ^ a = int (n * 2 ^ a)" "int d * 2 ^ 53 * 2 ^ b = int (d * 2 ^ 53 * 2 ^ b)"
      by (simp_all only: of_nat_mult of_nat_power of_nat_numeral)
    then show ?thesis by (simp only: of_nat_less_iff)
  qed
  show ?thesis unfolding round_scale_def Let_def less by (simp only: int_nat_eq max_def)
qed

lemma round_ratio_code [code]: "round_ratio n d e = nat (round_int (int n) (int d) e)"
proof (cases "n = 0")
  case False
  have inf: "int inf_bits = 2047 * 2 ^ 52" by (simp add: inf_bits_def)
  have k: "int (round_scale n d e) = max 0 (if int n * 2 ^ nat (53 + int (bit_len d) - int (bit_len n))
      < int d * 2 ^ 53 * 2 ^ nat (- (53 + int (bit_len d) - int (bit_len n)))
      then e - (53 + int (bit_len d) - int (bit_len n))
      else e - (53 + int (bit_len d) - int (bit_len n)) + 1)"
    unfolding int_round_scale Let_def ..
  have "int (round_ratio n d e) = min (int (div_round_even (n * 2 ^ nat (e - int (round_scale n d e)))
      (d * 2 ^ nat (int (round_scale n d e) - e))) + int (round_scale n d e) * 2 ^ 52) (2047 * 2 ^ 52)"
    using False by (simp only: round_ratio_def Let_def if_False of_nat_min inf of_nat_add
      of_nat_mult of_nat_power of_nat_numeral)
  also have "\<dots> = round_int (int n) (int d) e"
    using False unfolding round_int_def Let_def int_div_round_even pow2_52 pow2_53
    unfolding pow2_eq k [symmetric] nat_int
    by (simp only: of_nat_eq_0_iff if_False of_nat_mult of_nat_power of_nat_numeral)
  finally have "int (round_ratio n d e) = round_int (int n) (int d) e" .
  then show ?thesis by (metis nat_int)
qed (simp add: round_ratio_def round_int_def)

definition fneg :: "f64 \<Rightarrow> f64" where
  "fneg x = f64_make (\<not> f64_neg x) (abs_bits x)"

definition fadd :: "f64 \<Rightarrow> f64 \<Rightarrow> f64" where
  "fadd x y =
     (if is_nan x \<or> is_nan y then f64_nan
      else if is_inf x then (if is_inf y \<and> f64_neg x \<noteq> f64_neg y then f64_nan else x)
      else if is_inf y then y
      else let m = min (scl x) (scl y);
               a = int (mant x * 2 ^ (scl x - m)) * (if f64_neg x then - 1 else 1);
               b = int (mant y * 2 ^ (scl y - m)) * (if f64_neg y then - 1 else 1);
               s = a + b
           in if s = 0 then f64_zero (f64_neg x \<and> f64_neg y)
              else f64_make (s < 0) (round_ratio (nat \<bar>s\<bar>) 1 (int m)))"

definition fsub :: "f64 \<Rightarrow> f64 \<Rightarrow> f64" where
  "fsub x y = fadd x (if is_nan y then y else fneg y)"

definition fmul :: "f64 \<Rightarrow> f64 \<Rightarrow> f64" where
  "fmul x y =
     (let s = (f64_neg x \<noteq> f64_neg y)
      in if is_nan x \<or> is_nan y then f64_nan
         else if is_inf x then (if is_zero y then f64_nan else f64_inf s)
         else if is_inf y then (if is_zero x then f64_nan else f64_inf s)
         else f64_make s (round_ratio (mant x * mant y) 1 (int (scl x) + int (scl y) - 1074)))"

definition fdiv :: "f64 \<Rightarrow> f64 \<Rightarrow> f64" where
  "fdiv x y =
     (let s = (f64_neg x \<noteq> f64_neg y)
      in if is_nan x \<or> is_nan y then f64_nan
         else if is_inf x then (if is_inf y then f64_nan else f64_inf s)
         else if is_inf y then f64_zero s
         else if is_zero y then (if is_zero x then f64_nan else f64_inf s)
         else f64_make s (round_ratio (mant x) (mant y) (int (scl x) - int (scl y) + 1074)))"

text \<open>\<open>f64::round\<close>: to the nearest integer, halves away from zero.\<close>

definition fround :: "f64 \<Rightarrow> f64" where
  "fround x =
     (if \<not> is_finite x \<or> 1074 \<le> scl x then x
      else let d = 2 ^ (1074 - scl x)
           in f64_make (f64_neg x) (round_ratio ((2 * mant x + d) div (2 * d)) 1 1074))"

text \<open>Conversions: \<open>u64 as f64\<close>, and \<open>f64 as usize\<close>, which truncates and saturates.\<close>

definition f64_of_nat :: "nat \<Rightarrow> f64" where
  "f64_of_nat n = f64_make False (round_ratio n 1 1074)"

definition f64_to_usize :: "f64 \<Rightarrow> nat" where
  "f64_to_usize x =
     (if is_nan x \<or> f64_neg x then 0
      else if is_inf x then 2 ^ 64 - 1
      else min (2 ^ 64 - 1) (mant x * 2 ^ (scl x - 1074) div 2 ^ (1074 - scl x)))"

text \<open>Evaluation of the operations on integers.\<close>

lemma nat_pow2: "pow2 (int a) = 2 ^ a" "pow2 (int a - int b) = 2 ^ (a - b)"
  by (simp_all add: pow2_eq nat_diff_distrib' nat_int)

lemma nat_int_mult: "nat (int a * 2 ^ k) = a * 2 ^ k"
  by (simp add: nat_mult_distrib nat_power_eq)

lemma fadd_code [code]:
  "fadd x y =
     (if is_nan x \<or> is_nan y then f64_nan
      else if is_inf x then (if is_inf y \<and> f64_neg x \<noteq> f64_neg y then f64_nan else x)
      else if is_inf y then y
      else let u = int (scl x); v = int (scl y); m = min u v;
               a = int (mant x) * pow2 (u - m) * (if f64_neg x then - 1 else 1);
               b = int (mant y) * pow2 (v - m) * (if f64_neg y then - 1 else 1);
               s = a + b
           in if s = 0 then f64_zero (f64_neg x \<and> f64_neg y)
              else f64_make (s < 0) (round_ratio (nat \<bar>s\<bar>) 1 m))"
  unfolding fadd_def Let_def of_nat_min [symmetric] nat_pow2 of_nat_mult of_nat_power of_nat_numeral ..

lemma fmul_code [code]:
  "fmul x y =
     (let s = (f64_neg x \<noteq> f64_neg y)
      in if is_nan x \<or> is_nan y then f64_nan
         else if is_inf x then (if is_zero y then f64_nan else f64_inf s)
         else if is_inf y then (if is_zero x then f64_nan else f64_inf s)
         else f64_make s (round_ratio (nat (int (mant x) * int (mant y))) 1
           (int (scl x) + int (scl y) - 1074)))"
  by (simp only: fmul_def of_nat_mult [symmetric] nat_int)

lemma fround_code [code]:
  "fround x =
     (if \<not> is_finite x \<or> 1074 \<le> scl x then x
      else let d = pow2 (1074 - int (scl x))
           in f64_make (f64_neg x) (round_ratio (nat ((2 * int (mant x) + d) div (2 * d))) 1 1074))"
proof -
  have p: "pow2 (1074 - int a) = 2 ^ (1074 - a)" for a
    using nat_pow2(2) [of 1074 a] by simp
  have "(2 * int m + 2 ^ k) div (2 * 2 ^ k) = int ((2 * m + 2 ^ k) div (2 * 2 ^ k))" for m k
    by (simp add: zdiv_int)
  then show ?thesis unfolding fround_def Let_def p nat_int by simp
qed

lemma f64_to_usize_code [code]:
  "f64_to_usize x =
     (if is_nan x \<or> f64_neg x then 0
      else if is_inf x then 0xffffffffffffffff
      else nat (min 0xffffffffffffffff
        (int (mant x) * pow2 (int (scl x) - 1074) div pow2 (1074 - int (scl x)))))"
proof -
  have p: "pow2 (1074 - int a) = 2 ^ (1074 - a)" "pow2 (int a - 1074) = 2 ^ (a - 1074)" for a
    using nat_pow2(2) [of 1074 a] nat_pow2(2) [of a 1074] by simp_all
  have d: "int m * 2 ^ a div 2 ^ b = int (m * 2 ^ a div 2 ^ b)" for m a b
    by (simp add: zdiv_int)
  have c: "(0xffffffffffffffff :: int) = int (2 ^ 64 - 1)" "0xffffffffffffffff = (2 ^ 64 - 1 :: nat)"
    by simp_all
  show ?thesis
    unfolding f64_to_usize_def p d c of_nat_min [symmetric] nat_int ..
qed

declare div_round_even_def [rust_defs] round_scale_def [rust_defs] round_ratio_def [rust_defs] fneg_def [rust_defs]
  fadd_def [rust_defs] fsub_def [rust_defs] fmul_def [rust_defs] fdiv_def [rust_defs]
  fround_def [rust_defs] f64_of_nat_def [rust_defs] f64_to_usize_def [rust_defs]

end
