(* ===== verification/F64_Round.thy ===== *)
theory F64_Round
  imports F64
begin

text \<open>
  What the rounding of the floating-point theory computes, stated over the reals: the chosen
  scale leaves a quotient of at most 53 bits, the rounded pattern denotes the nearest
  representable multiple, rounding is exact on representable values, monotone, and within
  half a unit in the last place.
\<close>

section \<open>Rounding to an integer, over the reals\<close>

definition rnd :: "real \<Rightarrow> nat" where
  "rnd x = (let q = nat \<lfloor>x\<rfloor>; r = x - real q
            in if r < 1 / 2 \<or> (r = 1 / 2 \<and> even q) then q else Suc q)"

lemma rnd_div: "0 < d \<Longrightarrow> rnd (real n / real d) = div_round_even n d"
proof -
  assume d: "0 < d"
  have q: "nat \<lfloor>real n / real d\<rfloor> = n div d" by (simp add: floor_divide_of_nat_eq)
  have "real n = real d * real (n div d) + real (n mod d)"
    by (metis mult_div_mod_eq of_nat_add of_nat_mult)
  then have r: "real n / real d - real (n div d) = real (n mod d) / real d"
    using d by (simp add: field_simps)
  have lt: "real (n mod d) / real d < 1 / 2 \<longleftrightarrow> 2 * (n mod d) < d"
    using d by (simp add: field_simps) linarith
  have eq: "real (n mod d) / real d = 1 / 2 \<longleftrightarrow> 2 * (n mod d) = d"
    using d by (simp add: field_simps) linarith
  show ?thesis unfolding rnd_def div_round_even_def Let_def q r lt eq ..
qed

lemma rnd_cases:
  assumes "0 \<le> x"
  obtains q r where "x = real q + r" "0 \<le> r" "r < 1"
    "rnd x = (if r < 1 / 2 \<or> (r = 1 / 2 \<and> even q) then q else Suc q)"
proof (rule that)
  let ?q = "nat \<lfloor>x\<rfloor>"
  show "x = real ?q + (x - real ?q)" by simp
  show "0 \<le> x - real ?q" "x - real ?q < 1" using assms by linarith+
qed (simp add: rnd_def Let_def)

lemma rnd_error: "0 \<le> x \<Longrightarrow> \<bar>real (rnd x) - x\<bar> \<le> 1 / 2"
  by (erule rnd_cases) (auto split: if_splits)

lemma rnd_of_nat [simp]: "rnd (real n) = n"
  by (simp add: rnd_def)

lemma rnd_mono:
  assumes "0 \<le> x" "x \<le> y"
  shows "rnd x \<le> rnd y"
proof -
  have "0 \<le> y" using assms by simp
  obtain q r where x: "x = real q + r" "0 \<le> r" "r < 1"
    "rnd x = (if r < 1 / 2 \<or> (r = 1 / 2 \<and> even q) then q else Suc q)"
    using \<open>0 \<le> x\<close> by (rule rnd_cases)
  obtain p s where y: "y = real p + s" "0 \<le> s" "s < 1"
    "rnd y = (if s < 1 / 2 \<or> (s = 1 / 2 \<and> even p) then p else Suc p)"
    using \<open>0 \<le> y\<close> by (rule rnd_cases)
  have "q \<le> p" using assms(2) x y by linarith
  then show ?thesis
  proof (cases "q = p")
    case True
    with assms(2) x y show ?thesis by auto
  next
    case False
    with \<open>q \<le> p\<close> have "Suc q \<le> p" by simp
    with x y show ?thesis by auto
  qed
qed

lemma rnd_le: "0 \<le> x \<Longrightarrow> x \<le> real n \<Longrightarrow> rnd x \<le> n"
  using rnd_mono [of x "real n"] by simp

lemma rnd_ge: "real n \<le> x \<Longrightarrow> n \<le> rnd x"
  using rnd_mono [of "real n" x] by simp

section \<open>The chosen scale\<close>

definition ratio :: "nat \<Rightarrow> nat \<Rightarrow> int \<Rightarrow> real" where
  "ratio n d e = real n / real d * 2 powi e"

lemma ratio_nonneg [simp]: "0 \<le> ratio n d e"
  by (simp add: ratio_def)

lemma ratio_shift:
  "real (n * 2 ^ nat (e - k)) / real (d * 2 ^ nat (k - e)) = ratio n d e / 2 powi k"
proof (cases "k \<le> e")
  case True
  then have "(2::real) powi (e - k) = 2 ^ nat (e - k)" by (simp add: power_int_def)
  moreover have "(2::real) powi e = 2 powi (e - k) * 2 powi k" by (simp flip: power_int_add)
  ultimately show ?thesis using True by (simp add: ratio_def)
next
  case False
  then have "(2::real) powi (k - e) = 2 ^ nat (k - e)" by (simp add: power_int_def)
  with False show ?thesis by (simp add: ratio_def power_int_diff field_simps)
qed

lemma bit_len_real:
  assumes "0 < n"
  shows "2 powi (int (bit_len n) - 1) \<le> real n" "real n < 2 powi int (bit_len n)"
proof -
  from bit_len_bounds [OF assms] have b: "2 ^ (bit_len n - 1) \<le> n" "n < 2 ^ bit_len n"
    and pos: "0 < bit_len n" by auto
  have "real (2 ^ (bit_len n - 1)) \<le> real n" using b(1) by (simp only: of_nat_le_iff)
  moreover have "(2::real) powi (int (bit_len n) - 1) = 2 ^ (bit_len n - 1)"
    using pos by (simp add: power_int_def nat_diff_distrib)
  ultimately show "2 powi (int (bit_len n) - 1) \<le> real n" by simp
  have "real n < real (2 ^ bit_len n)" using b(2) by (simp only: of_nat_less_iff)
  then show "real n < 2 powi int (bit_len n)" by simp
qed

lemma round_scale_bounds:
  assumes n: "0 < n" and d: "0 < d"
  obtains k where "round_scale n d e = nat k"
    "2 ^ 52 * 2 powi k \<le> ratio n d e" "ratio n d e < 2 ^ 53 * 2 powi k"
proof -
  define j where "j = 53 + int (bit_len d) - int (bit_len n)"
  define u where "u = real n / real d * 2 powi j"
  have v: "ratio n d e = u * 2 powi (e - j)"
    by (simp add: ratio_def u_def power_int_diff)
  have "u < 2 powi int (bit_len n) / 2 powi (int (bit_len d) - 1) * 2 powi j"
    unfolding u_def using bit_len_real [OF n] bit_len_real [OF d] d
    by (intro mult_strict_right_mono frac_less) auto
  also have "\<dots> = 2 powi (int (bit_len n) - (int (bit_len d) - 1) + j)"
    by (simp add: power_int_diff power_int_add)
  also have "int (bit_len n) - (int (bit_len d) - 1) + j = 54" by (simp add: j_def)
  finally have hi: "u < 2 ^ 54" by simp
  have "2 powi (int (bit_len n) - 1) / 2 powi int (bit_len d) * 2 powi j \<le> u"
    unfolding u_def using bit_len_real [OF n] bit_len_real [OF d] d
    by (intro mult_right_mono frac_le) auto
  moreover have "2 powi (int (bit_len n) - 1) / 2 powi int (bit_len d) * 2 powi j
      = (2::real) powi (int (bit_len n) - 1 - int (bit_len d) + j)"
    by (simp add: power_int_diff power_int_add)
  moreover have "int (bit_len n) - 1 - int (bit_len d) + j = 52" by (simp add: j_def)
  ultimately have lo: "2 ^ 52 \<le> u" by simp
  have test: "n * 2 ^ nat j < d * 2 ^ 53 * 2 ^ nat (- j) \<longleftrightarrow> u < 2 ^ 53"
  proof -
    have "u < 2 ^ 53 \<longleftrightarrow> real (n * 2 ^ nat j) / real (d * 2 ^ nat (- j)) < 2 ^ 53"
      using ratio_shift [of n j 0 d] by (simp add: ratio_def u_def)
    also have "\<dots> \<longleftrightarrow> real (n * 2 ^ nat j) < 2 ^ 53 * real (d * 2 ^ nat (- j))"
      using d by (simp add: pos_divide_less_eq)
    also have "\<dots> \<longleftrightarrow> real (n * 2 ^ nat j) < real (d * 2 ^ 53 * 2 ^ nat (- j))"
      by (simp add: ac_simps)
    finally show ?thesis by (simp only: of_nat_less_iff)
  qed
  show ?thesis
  proof (cases "u < 2 ^ 53")
    case True
    show ?thesis
    proof (rule that)
      show "round_scale n d e = nat (e - j)"
        using True unfolding round_scale_def Let_def j_def [symmetric] test by simp
      show "2 ^ 52 * 2 powi (e - j) \<le> ratio n d e" "ratio n d e < 2 ^ 53 * 2 powi (e - j)"
        using lo True unfolding v by auto
    qed
  next
    case False
    show ?thesis
    proof (rule that)
      show "round_scale n d e = nat (e - j + 1)"
        using False unfolding round_scale_def Let_def j_def [symmetric] test by simp
      have "(2::real) powi (e - j + 1) = 2 * 2 powi (e - j)" by (simp add: power_int_add)
      then show "2 ^ 52 * 2 powi (e - j + 1) \<le> ratio n d e"
        "ratio n d e < 2 ^ 53 * 2 powi (e - j + 1)"
        using hi False unfolding v by auto
    qed
  qed
qed

section \<open>What the rounded pattern denotes\<close>

definition units :: "nat \<Rightarrow> nat" where
  "units b = bits_mant b * 2 ^ bits_scl b"

text \<open>A significand of at most 53 bits at scale \<open>k\<close>, a carry included, is its own pattern.\<close>

lemma units_pattern:
  assumes "m \<le> 2 ^ 53" "k = 0 \<or> 2 ^ 52 \<le> m"
  shows "units (m + k * 2 ^ 52) = m * 2 ^ k"
proof -
  consider "m < 2 ^ 52" "k = 0" | "2 ^ 52 \<le> m" "m < 2 ^ 53" | "m = 2 ^ 53"
    using assms by linarith
  then show ?thesis
  proof cases
    case 1
    then show ?thesis by (simp add: units_def bits_mant_def bits_scl_def)
  next
    case 2
    then obtain f where f: "m = 2 ^ 52 + f" "f < 2 ^ 52"
      by (metis add_less_cancel_left le_Suc_ex mult_2 power_Suc eval_nat_numeral(3) numeral_code(2))
    have b: "m + k * 2 ^ 52 = f + (k + 1) * 2 ^ 52" using f by simp
    have "(m + k * 2 ^ 52) div 2 ^ 52 = k + 1" "(m + k * 2 ^ 52) mod 2 ^ 52 = f"
      unfolding b using f(2) by (simp_all only: div_mult_self1 mod_mult_self1) simp_all
    with f show ?thesis by (simp add: units_def bits_mant_def bits_scl_def)
  next
    case 3
    then have b: "m + k * 2 ^ 52 = (k + 2) * 2 ^ 52" by simp
    have "(m + k * 2 ^ 52) div 2 ^ 52 = k + 2" "(m + k * 2 ^ 52) mod 2 ^ 52 = 0"
      unfolding b by simp_all
    with 3 show ?thesis by (simp add: units_def bits_mant_def bits_scl_def)
  qed
qed

lemma bits_fields:
  "b = bits_mant b + bits_scl b * 2 ^ 52" "bits_mant b < 2 ^ 53"
  "bits_scl b = 0 \<or> 2 ^ 52 \<le> bits_mant b"
proof -
  have m: "b mod 2 ^ 52 < 2 ^ 52" by simp
  have b: "b = b mod 2 ^ 52 + b div 2 ^ 52 * 2 ^ 52" by simp
  show "bits_mant b < 2 ^ 53" using m by (simp add: bits_mant_def)
  show "bits_scl b = 0 \<or> 2 ^ 52 \<le> bits_mant b"
    by (auto simp: bits_mant_def bits_scl_def)
  show "b = bits_mant b + bits_scl b * 2 ^ 52"
  proof (cases "b < 2 ^ 52")
    case True
    then show ?thesis by (simp add: bits_mant_def bits_scl_def)
  next
    case False
    then obtain q where "b div 2 ^ 52 = Suc q"
      by (metis div_eq_0_iff not0_implies_Suc power_not_zero zero_neq_numeral)
    with b have "b = b mod 2 ^ 52 + Suc q * 2 ^ 52" by metis
    with False \<open>b div 2 ^ 52 = Suc q\<close> show ?thesis by (simp add: bits_mant_def bits_scl_def)
  qed
qed

text \<open>
  The value of \<open>round_ratio\<close> depends only on the exact value \<open>v\<close> it rounds: a scale \<open>k\<close>
  with \<open>v < 2\<^sup>5\<^sup>3\<^sup>+\<^sup>k\<close>, and \<open>2\<^sup>5\<^sup>2\<^sup>+\<^sup>k \<le> v\<close> unless \<open>k = 0\<close>, and the integer nearest to \<open>v / 2\<^sup>k\<close>.
\<close>

definition fits :: "real \<Rightarrow> nat \<Rightarrow> bool" where
  "fits v k \<longleftrightarrow> v < 2 ^ 53 * 2 ^ k \<and> (k = 0 \<or> 2 ^ 52 * 2 ^ k \<le> v)"

lemma round_ratio_fits:
  assumes n: "0 < n" and d: "0 < d"
  obtains k where "fits (ratio n d e) k"
    "round_ratio n d e = min (rnd (ratio n d e / 2 ^ k) + k * 2 ^ 52) inf_bits"
proof -
  obtain l where l: "round_scale n d e = nat l"
    "2 ^ 52 * 2 powi l \<le> ratio n d e" "ratio n d e < 2 ^ 53 * 2 powi l"
    using n d by (rule round_scale_bounds)
  let ?k = "nat l"
  have fits: "fits (ratio n d e) ?k"
  proof (cases "0 \<le> l")
    case True
    then have "(2::real) powi l = 2 ^ ?k" by (simp add: power_int_def)
    with l show ?thesis by (simp add: fits_def)
  next
    case False
    then have "(2::real) powi l \<le> 2 powi 0" by (intro power_int_increasing) auto
    with l(3) have "ratio n d e < 2 ^ 53" by simp
    with False show ?thesis by (simp add: fits_def)
  qed
  have "round_ratio n d e
      = min (div_round_even (n * 2 ^ nat (e - int ?k)) (d * 2 ^ nat (int ?k - e)) + ?k * 2 ^ 52) inf_bits"
    using n unfolding round_ratio_def Let_def l(1) by simp
  also have "div_round_even (n * 2 ^ nat (e - int ?k)) (d * 2 ^ nat (int ?k - e))
      = rnd (ratio n d e / 2 powi int ?k)"
    using d by (subst rnd_div [symmetric]) (simp_all only: ratio_shift, simp)
  also have "(2::real) powi int ?k = 2 ^ ?k" by (rule power_int_of_nat)
  finally show ?thesis using fits that by blast
qed

lemma fits_rnd:
  assumes "fits v k" "0 \<le> v"
  shows "rnd (v / 2 ^ k) \<le> 2 ^ 53" "k = 0 \<or> 2 ^ 52 \<le> rnd (v / 2 ^ k)"
proof -
  have "v / 2 ^ k \<le> real (2 ^ 53)" using assms by (simp add: fits_def field_simps)
  then show "rnd (v / 2 ^ k) \<le> 2 ^ 53" using assms by (intro rnd_le) auto
  show "k = 0 \<or> 2 ^ 52 \<le> rnd (v / 2 ^ k)"
  proof (cases "k = 0")
    case False
    then have "real (2 ^ 52) \<le> v / 2 ^ k" using assms by (simp add: fits_def field_simps)
    then show ?thesis by (blast intro: rnd_ge)
  qed simp
qed

lemma fits_scale_le:
  assumes "fits v k" "fits w l" "v \<le> w"
  shows "k \<le> l"
proof (rule ccontr)
  assume "\<not> k \<le> l"
  then have kl: "Suc l \<le> k" by simp
  then have "2 ^ 52 * 2 ^ k \<le> v" using assms(1) by (auto simp: fits_def)
  also have "v \<le> w" by (rule assms(3))
  also have "w < 2 ^ 53 * 2 ^ l" using assms(2) by (simp add: fits_def)
  also have "2 ^ 53 * 2 ^ l = 2 ^ 52 * (2::real) ^ Suc l" by simp
  also have "\<dots> \<le> 2 ^ 52 * 2 ^ k" using kl by (intro mult_left_mono power_increasing) auto
  finally show False by simp
qed

lemma fits_unique: "fits v k \<Longrightarrow> fits v l \<Longrightarrow> k = l"
  by (meson fits_scale_le order_antisym order_refl)

text \<open>Rounding is monotone in the exact value.\<close>

lemma round_pattern_mono:
  assumes "fits v k" "fits w l" "0 \<le> v" "v \<le> w"
  shows "rnd (v / 2 ^ k) + k * 2 ^ 52 \<le> rnd (w / 2 ^ l) + l * 2 ^ 52"
proof (cases "k = l")
  case True
  with assms show ?thesis by (auto intro!: rnd_mono divide_right_mono)
next
  case False
  with fits_scale_le [OF assms(1,2,4)] have "Suc k \<le> l" by simp
  then have "(k + 2) * 2 ^ 52 \<le> 2 ^ 52 + l * (2::nat) ^ 52" by simp
  moreover have "2 ^ 52 \<le> rnd (w / 2 ^ l)"
    using fits_rnd(2) [OF assms(2)] assms \<open>Suc k \<le> l\<close> by auto
  moreover have "rnd (v / 2 ^ k) \<le> 2 ^ 53" using assms by (intro fits_rnd) auto
  ultimately show ?thesis by simp
qed

lemma round_ratio_mono:
  assumes "0 < d" "0 < d'" "ratio n d e \<le> ratio n' d' e'"
  shows "round_ratio n d e \<le> round_ratio n' d' e'"
proof (cases "n = 0")
  case True
  then show ?thesis by (simp add: round_ratio_def)
next
  case False
  then have n: "0 < n" by simp
  with assms(1) have "0 < ratio n d e" by (simp add: ratio_def)
  with assms(3) have "0 < ratio n' d' e'" by linarith
  then have n': "0 < n'" by (cases "n' = 0") (auto simp: ratio_def)
  obtain k where k: "fits (ratio n d e) k"
    "round_ratio n d e = min (rnd (ratio n d e / 2 ^ k) + k * 2 ^ 52) inf_bits"
    using n assms(1) by (rule round_ratio_fits)
  obtain l where l: "fits (ratio n' d' e') l"
    "round_ratio n' d' e' = min (rnd (ratio n' d' e' / 2 ^ l) + l * 2 ^ 52) inf_bits"
    using n' assms(2) by (rule round_ratio_fits)
  show ?thesis
    unfolding k(2) l(2) using round_pattern_mono [OF k(1) l(1)] assms(3) by (simp add: min.coboundedI1)
qed

text \<open>Rounding is exact on what a pattern denotes.\<close>

lemma fits_units: "fits (real (units b)) (bits_scl b)"
proof -
  have "real (bits_mant b) < real (2 ^ 53)" using bits_fields(2) by (simp only: of_nat_less_iff)
  then have "real (bits_mant b) < 2 ^ 53" by simp
  moreover have "bits_scl b = 0 \<or> 2 ^ 52 \<le> real (bits_mant b)"
  proof (cases "bits_scl b = 0")
    case False
    then have "real (2 ^ 52) \<le> real (bits_mant b)"
      using bits_fields(3) [of b] by (simp only: of_nat_le_iff) simp
    then show ?thesis by simp
  qed simp
  ultimately show ?thesis by (auto simp: fits_def units_def)
qed

lemma round_ratio_exact:
  assumes d: "0 < d" and v: "ratio n d e = real (units b)" and b: "b \<le> inf_bits"
  shows "round_ratio n d e = b"
proof (cases "n = 0")
  case True
  with v have "units b = 0" by (simp add: ratio_def)
  then have "bits_mant b = 0" by (simp add: units_def)
  moreover from this have "bits_scl b = 0" using bits_fields(3) [of b] by auto
  ultimately have "b = 0" using bits_fields(1) [of b] by simp
  with True show ?thesis by (simp add: round_ratio_def)
next
  case False
  then obtain k where k: "fits (ratio n d e) k"
    "round_ratio n d e = min (rnd (ratio n d e / 2 ^ k) + k * 2 ^ 52) inf_bits"
    using d round_ratio_fits by blast
  have "k = bits_scl b" using k(1) fits_units fits_unique v by metis
  then have "rnd (ratio n d e / 2 ^ k) = bits_mant b" by (simp add: v units_def)
  with \<open>k = bits_scl b\<close> bits_fields(1) [of b] b show ?thesis unfolding k(2) by simp
qed

text \<open>Rounding a finite value errs by at most half a unit in the last place.\<close>

lemma round_ratio_error:
  assumes "0 < n" "0 < d" "round_ratio n d e < inf_bits"
  obtains k where "fits (ratio n d e) k"
    "\<bar>real (units (round_ratio n d e)) - ratio n d e\<bar> \<le> 2 ^ k / 2"
proof -
  obtain k where k: "fits (ratio n d e) k"
    "round_ratio n d e = min (rnd (ratio n d e / 2 ^ k) + k * 2 ^ 52) inf_bits"
    using assms(1,2) by (rule round_ratio_fits)
  let ?m = "rnd (ratio n d e / 2 ^ k)"
  from k(2) assms(3) have "round_ratio n d e = ?m + k * 2 ^ 52" by simp
  then have u: "units (round_ratio n d e) = ?m * 2 ^ k"
    using units_pattern fits_rnd [OF k(1)] by simp
  have "\<bar>real ?m - ratio n d e / 2 ^ k\<bar> \<le> 1 / 2" by (rule rnd_error) simp
  then have "\<bar>real ?m - ratio n d e / 2 ^ k\<bar> * 2 ^ k \<le> 1 / 2 * 2 ^ k"
    by (intro mult_right_mono) auto
  also have "\<bar>real ?m - ratio n d e / 2 ^ k\<bar> * 2 ^ k = \<bar>real (units (round_ratio n d e)) - ratio n d e\<bar>"
  proof -
    have "(real ?m - ratio n d e / 2 ^ k) * 2 ^ k = real (units (round_ratio n d e)) - ratio n d e"
      unfolding u by (simp add: left_diff_distrib)
    then show ?thesis by (metis abs_mult abs_numeral power_abs)
  qed
  finally show ?thesis using k(1) that by simp
qed

section \<open>Signs of computed values\<close>

text \<open>The signed value of a pattern in units; it orders patterns as the IEEE comparison does.\<close>

definition sval :: "f64 \<Rightarrow> int" where
  "sval x = (if f64_neg x then - int (units (abs_bits x)) else int (units (abs_bits x)))"

lemma ratio_nat [simp]: "ratio n 1 0 = real n" "ratio n (Suc 0) 0 = real n"
  by (simp_all add: ratio_def)

lemma units_strict_mono: "b < c \<Longrightarrow> c \<le> inf_bits \<Longrightarrow> units b < units c"
proof (rule ccontr)
  assume b: "b < c" "c \<le> inf_bits" and "\<not> units b < units c"
  then have "ratio (units c) 1 0 \<le> ratio (units b) 1 0" by simp
  then have "round_ratio (units c) 1 0 \<le> round_ratio (units b) 1 0"
    by (intro round_ratio_mono) simp_all
  moreover have "round_ratio (units c) 1 0 = c" using b by (intro round_ratio_exact) simp_all
  moreover have "round_ratio (units b) 1 0 = b" using b by (intro round_ratio_exact) simp_all
  ultimately show False using b by simp
qed

lemma units_less_iff: "b \<le> inf_bits \<Longrightarrow> c \<le> inf_bits \<Longrightarrow> units b < units c \<longleftrightarrow> b < c"
  by (metis less_asym linorder_neqE_nat units_strict_mono)

lemma units_0 [simp]: "units 0 = 0"
  by (simp add: units_def bits_mant_def)

lemma units_1 [simp]: "units (Suc 0) = 1" "units 1 = 1"
  by (simp_all add: units_def bits_mant_def bits_scl_def)

lemma units_pos: "0 < b \<Longrightarrow> b \<le> inf_bits \<Longrightarrow> 0 < units b"
  using units_strict_mono [of 0 b] by simp

lemma sval_less_iff:
  assumes "\<not> is_nan x" "\<not> is_nan y"
  shows "sval x < sval y \<longleftrightarrow> ieee_key x < ieee_key y"
proof -
  have b: "abs_bits x \<le> inf_bits" "abs_bits y \<le> inf_bits" using assms by (auto simp: is_nan_def)
  have "abs_bits z = 0 \<longleftrightarrow> units (abs_bits z) = 0" if "abs_bits z \<le> inf_bits" for z
    using units_pos [of "abs_bits z"] that by (cases "abs_bits z = 0") auto
  then have "0 < units (abs_bits x) \<longleftrightarrow> 0 < abs_bits x" "0 < units (abs_bits y) \<longleftrightarrow> 0 < abs_bits y"
    using b by (metis neq0_conv)+
  with b show ?thesis
    using units_less_iff [of "abs_bits x" "abs_bits y"] units_less_iff [of "abs_bits y" "abs_bits x"]
    by (auto simp: sval_def ieee_key_def)
qed

lemma round_ratio_le_inf: "round_ratio n d e \<le> inf_bits"
  by (simp add: round_ratio_def Let_def)

lemma round_ratio_pos:
  assumes "0 < d" "1 \<le> ratio n d e"
  shows "0 < round_ratio n d e"
proof -
  have "round_ratio 1 1 0 \<le> round_ratio n d e" using assms by (intro round_ratio_mono) simp_all
  moreover have "round_ratio 1 1 0 = 1"
    by (intro round_ratio_exact) (simp_all add: inf_bits_def)
  ultimately show ?thesis by simp
qed

lemma round_ratio_lt: "round_ratio n d e < 2 ^ 63"
  using round_ratio_le_inf [of n d e] inf_bits_lt(1) by linarith

lemma rounded_simps [simp]:
  "abs_bits (f64_make s (round_ratio n d e)) = round_ratio n d e"
  "f64_neg (f64_make s (round_ratio n d e)) = s"
  "\<not> is_nan (f64_make s (round_ratio n d e))"
  using round_ratio_lt [of n d e] round_ratio_le_inf [of n d e] by (auto simp: is_nan_def)

lemma special_simps [simp]:
  "\<not> is_nan (f64_zero s)" "\<not> is_nan (f64_inf s)"
  "f64_neg (f64_zero s) = s" "f64_neg (f64_inf s) = s" "is_zero (f64_zero s)" "is_inf (f64_inf s)"
  by (simp_all add: is_nan_def is_zero_def is_inf_def f64_zero_def f64_inf_def
      abs_bits_f64_make [OF inf_bits_lt(1)] f64_neg_f64_make [OF inf_bits_lt(1)])

lemma fneg_simps [simp]:
  "abs_bits (fneg x) = abs_bits x" "f64_neg (fneg x) = (\<not> f64_neg x)"
  "sval (fneg x) = - sval x"
  using abs_bits_lt [of x] by (auto simp: fneg_def sval_def)

lemma fneg_class [simp]:
  "is_nan (fneg x) = is_nan x" "is_inf (fneg x) = is_inf x" "is_finite (fneg x) = is_finite x"
  by (simp_all add: is_nan_def is_inf_def is_finite_def)

text \<open>The sum of two finite values: not NaN, and its sign is the sign of the exact sum.\<close>

lemma fadd_exact:
  assumes "is_finite x" "is_finite y"
  obtains s m where "sval x + sval y = s * 2 ^ m"
    "fadd x y = (if s = 0 then f64_zero (f64_neg x \<and> f64_neg y)
      else f64_make (s < 0) (round_ratio (nat \<bar>s\<bar>) 1 (int m)))"
proof -
  define m where "m = min (scl x) (scl y)"
  define s where "s = int (mant x * 2 ^ (scl x - m)) * (if f64_neg x then - 1 else 1)
    + int (mant y * 2 ^ (scl y - m)) * (if f64_neg y then - 1 else 1)"
  have scale: "int (units (abs_bits z)) = int (mant z * 2 ^ (scl z - m)) * 2 ^ m" if "m \<le> scl z" for z
  proof -
    have "(2::nat) ^ scl z = 2 ^ (scl z - m) * 2 ^ m" using that by (simp flip: power_add)
    then show ?thesis by (simp add: units_def mant_def scl_def)
  qed
  have sum: "sval x + sval y = s * 2 ^ m"
    using scale [of x] scale [of y] by (simp add: sval_def s_def m_def algebra_simps)
  have fadd: "fadd x y = (if s = 0 then f64_zero (f64_neg x \<and> f64_neg y)
      else f64_make (s < 0) (round_ratio (nat \<bar>s\<bar>) 1 (int m)))"
    using assms unfolding is_finite_iff fadd_def Let_def m_def [symmetric] s_def [symmetric] by simp
  from sum fadd show ?thesis by (rule that)
qed

lemma fadd_finite:
  assumes "is_finite x" "is_finite y"
  shows "\<not> is_nan (fadd x y)"
    and "sval x + sval y < 0 \<Longrightarrow> f64_neg (fadd x y)"
    and "0 < sval x + sval y \<Longrightarrow> \<not> f64_neg (fadd x y)"
    and "sval x + sval y = 0 \<Longrightarrow> is_zero (fadd x y)"
proof -
  obtain s m where sum: "sval x + sval y = s * 2 ^ m"
    and fadd: "fadd x y = (if s = 0 then f64_zero (f64_neg x \<and> f64_neg y)
      else f64_make (s < 0) (round_ratio (nat \<bar>s\<bar>) 1 (int m)))"
    using assms by (rule fadd_exact)
  show "\<not> is_nan (fadd x y)" by (simp add: fadd)
  show "sval x + sval y < 0 \<Longrightarrow> f64_neg (fadd x y)" by (simp add: fadd sum mult_less_0_iff)
  show "0 < sval x + sval y \<Longrightarrow> \<not> f64_neg (fadd x y)"
    by (simp add: fadd sum zero_less_mult_iff)
  show "sval x + sval y = 0 \<Longrightarrow> is_zero (fadd x y)" by (simp add: fadd sum)
qed

lemma fsub_finite:
  assumes "is_finite x" "is_finite y"
  shows "\<not> is_nan (fsub x y)" "flt x y \<Longrightarrow> f64_neg (fsub x y)"
    "flt y x \<Longrightarrow> \<not> f64_neg (fsub x y)" "feq x y \<Longrightarrow> is_zero (fsub x y)"
proof -
  have nn: "\<not> is_nan x" "\<not> is_nan y" using assms by (simp_all add: is_finite_iff)
  then have sub: "fsub x y = fadd x (fneg y)" by (simp add: fsub_def)
  have fin: "is_finite (fneg y)" using assms(2) by simp
  note add = fadd_finite [OF assms(1) fin]
  show "\<not> is_nan (fsub x y)" using add(1) by (simp add: sub)
  show "flt x y \<Longrightarrow> f64_neg (fsub x y)"
    using add(2) sval_less_iff [OF nn] by (simp add: sub flt_def)
  show "flt y x \<Longrightarrow> \<not> f64_neg (fsub x y)"
    using add(3) sval_less_iff [OF nn(2,1)] by (simp add: sub flt_def)
  show "feq x y \<Longrightarrow> is_zero (fsub x y)"
    using add(4) sval_less_iff [OF nn] sval_less_iff [OF nn(2,1)] by (simp add: sub feq_def)
qed

lemma fround_sign [simp]: "f64_neg (fround x) = f64_neg x" "is_nan (fround x) = is_nan x"
  by (auto simp: fround_def Let_def is_finite_iff)

lemma fmul_sign:
  assumes "\<not> is_nan x" "is_finite c" "\<not> is_zero c" "\<not> f64_neg c"
  shows "f64_neg (fmul x c) = f64_neg x" "\<not> is_nan (fmul x c)"
  using assms by (auto simp: fmul_def Let_def is_finite_iff)

lemma zero_times:
  assumes "is_zero x" "is_finite c" "\<not> is_zero c"
  shows "is_zero (fmul x c)" "is_zero (fdiv x c)"
proof -
  have x: "mant x = 0" "is_finite x"
    using assms(1) by (simp_all add: is_zero_def mant_def bits_mant_def is_finite_def)
  show "is_zero (fmul x c)" "is_zero (fdiv x c)"
    using assms(2,3) x(2) by (auto simp: fmul_def fdiv_def Let_def is_finite_iff x(1) is_zero_def round_ratio_def)
qed

lemma fdiv_sign:
  assumes "\<not> is_nan x" "is_finite c" "\<not> is_zero c" "\<not> f64_neg c"
  shows "f64_neg (fdiv x c) = f64_neg x" "\<not> is_nan (fdiv x c)"
  using assms by (auto simp: fdiv_def Let_def is_finite_iff)

lemma fle_zero_sign:
  assumes "\<not> is_nan x"
  shows "f64_neg x \<Longrightarrow> fle x (f64_zero s)" "\<not> f64_neg x \<Longrightarrow> fle (f64_zero s) x"
    "is_zero x \<Longrightarrow> fle x (f64_zero s)" "is_zero x \<Longrightarrow> fle (f64_zero s) x"
  using assms by (auto simp: fle_def ieee_key_def f64_zero_def is_zero_def is_nan_def)

end
