(* ===== verification/Rust_Str.thy ===== *)
theory Rust_Str
  imports F64
begin

text \<open>
  The string operations of the Rust standard library that the sources use, on \<open>string\<close>
  (a list of 8-bit characters), restricted to ASCII for the case conversions: splitting and
  stripping, \<open>u16::from_str\<close>, \<open>f64::from_str\<close>, and the formatting of floats with a fixed
  number of decimals and of padded fields.
\<close>

section \<open>Characters\<close>

definition char_code :: "char \<Rightarrow> nat" where
  "char_code c = of_char c"

definition is_digit :: "char \<Rightarrow> bool" where
  "is_digit c \<longleftrightarrow> 48 \<le> char_code c \<and> char_code c \<le> 57"

definition to_lower :: "char \<Rightarrow> char" where
  "to_lower c = (if 65 \<le> char_code c \<and> char_code c \<le> 90 then char_of (char_code c + 32) else c)"

definition to_upper :: "char \<Rightarrow> char" where
  "to_upper c = (if 97 \<le> char_code c \<and> char_code c \<le> 122 then char_of (char_code c - 32) else c)"

definition to_lowercase :: "string \<Rightarrow> string" where
  "to_lowercase s = map to_lower s"

definition to_uppercase :: "string \<Rightarrow> string" where
  "to_uppercase s = map to_upper s"

definition digit_char :: "nat \<Rightarrow> char" where
  "digit_char d = char_of (48 + d)"

definition digit_val :: "char \<Rightarrow> nat" where
  "digit_val c = char_code c - 48"

lemma char_code_digit_char: "d < 10 \<Longrightarrow> char_code (digit_char d) = 48 + d"
  by (simp add: char_code_def digit_char_def)

lemma is_digit_char [simp]: "d < 10 \<Longrightarrow> is_digit (digit_char d)"
  by (simp add: is_digit_def char_code_digit_char)

lemma digit_val_char [simp]: "d < 10 \<Longrightarrow> digit_val (digit_char d) = d"
  by (simp add: digit_val_def char_code_digit_char)

lemma digit_char_neq: "d < 10 \<Longrightarrow> \<not> is_digit c \<Longrightarrow> digit_char d \<noteq> c"
  using is_digit_char by blast

section \<open>Splitting and stripping\<close>

definition strip_prefix :: "string \<Rightarrow> string \<Rightarrow> string option" where
  "strip_prefix p s = (if take (length p) s = p then Some (drop (length p) s) else None)"

definition strip_suffix :: "string \<Rightarrow> string \<Rightarrow> string option" where
  "strip_suffix p s =
     (if length p \<le> length s \<and> drop (length s - length p) s = p
      then Some (take (length s - length p) s) else None)"

text \<open>\<open>s.split(c).next()\<close>: the text before the first \<open>c\<close>, all of \<open>s\<close> if there is none.\<close>

definition split_next :: "char \<Rightarrow> string \<Rightarrow> string" where
  "split_next c s = takeWhile (\<lambda>d. d \<noteq> c) s"

fun split_once :: "string \<Rightarrow> string \<Rightarrow> (string \<times> string) option" where
  "split_once p [] = (if p = [] then Some ([], []) else None)"
| "split_once p (c # s) =
     (case strip_prefix p (c # s) of
        Some rest \<Rightarrow> Some ([], rest)
      | None \<Rightarrow> map_option (\<lambda>(a, b). (c # a, b)) (split_once p s))"

fun rsplit_once :: "char \<Rightarrow> string \<Rightarrow> (string \<times> string) option" where
  "rsplit_once c [] = None"
| "rsplit_once c (d # s) =
     (case rsplit_once c s of
        Some (a, b) \<Rightarrow> Some (d # a, b)
      | None \<Rightarrow> if d = c then Some ([], s) else None)"

definition trim_start_matches :: "char \<Rightarrow> string \<Rightarrow> string" where
  "trim_start_matches c s = dropWhile (\<lambda>d. d = c) s"

definition contains :: "string \<Rightarrow> string \<Rightarrow> bool" where
  "contains p s \<longleftrightarrow> split_once p s \<noteq> None"

lemma rsplit_once_None: "rsplit_once c s = None \<longleftrightarrow> c \<notin> set s"
  by (induction s) (auto split: option.splits)

lemma rsplit_once_append: "c \<notin> set b \<Longrightarrow> rsplit_once c (a @ c # b) = Some (a, b)"
  using rsplit_once_None [THEN iffD2, of c b] by (induction a) simp_all

lemma rsplit_once_Some: "rsplit_once c s = Some (a, b) \<longleftrightarrow> s = a @ c # b \<and> c \<notin> set b"
proof
  show "rsplit_once c s = Some (a, b) \<Longrightarrow> s = a @ c # b \<and> c \<notin> set b"
    by (induction s arbitrary: a b) (auto simp: rsplit_once_None split: option.splits if_splits)
qed (auto simp: rsplit_once_append)

lemma split_next_append: "c \<notin> set a \<Longrightarrow> split_next c (a @ c # b) = a"
  by (simp add: split_next_def takeWhile_append)

lemma split_next_none: "c \<notin> set a \<Longrightarrow> split_next c a = a"
  unfolding split_next_def by (subst takeWhile_eq_all_conv) auto

lemma split_next_set: "c \<notin> set (split_next c s)"
  by (auto simp: split_next_def dest: set_takeWhileD)

lemma strip_prefix_append [simp]: "strip_prefix p (p @ s) = Some s"
  by (simp add: strip_prefix_def)

lemma strip_prefix_Some: "strip_prefix p s = Some r \<longleftrightarrow> s = p @ r"
  by (auto simp: strip_prefix_def split: if_splits) (metis append_take_drop_id)

lemma strip_suffix_append [simp]: "strip_suffix p (s @ p) = Some s"
  by (simp add: strip_suffix_def)

lemma strip_suffix_Some: "strip_suffix p s = Some r \<longleftrightarrow> s = r @ p"
  by (auto simp: strip_suffix_def split: if_splits) (metis append_take_drop_id)

section \<open>Decimal digits\<close>

definition digits_val :: "string \<Rightarrow> nat" where
  "digits_val s = foldl (\<lambda>n c. 10 * n + digit_val c) 0 s"

fun show_nat :: "nat \<Rightarrow> string" where
  "show_nat n = (if n < 10 then [digit_char n] else show_nat (n div 10) @ [digit_char (n mod 10)])"

declare show_nat.simps [simp del]

lemma digits_val_snoc: "digits_val (s @ [c]) = 10 * digits_val s + digit_val c"
  by (simp add: digits_val_def)

lemma show_nat_digits: "set (show_nat n) \<subseteq> Collect is_digit"
proof (induction n rule: show_nat.induct)
  case (1 n)
  then show ?case by (subst show_nat.simps) auto
qed

lemma show_nat_nonempty [simp]: "show_nat n \<noteq> []"
  by (subst show_nat.simps) simp

lemma digits_val_show_nat [simp]: "digits_val (show_nat n) = n"
proof (induction n rule: show_nat.induct)
  case (1 n)
  show ?case
  proof (cases "n < 10")
    case True
    then show ?thesis by (subst show_nat.simps) (simp add: digits_val_def)
  next
    case False
    with 1 show ?thesis by (subst show_nat.simps) (simp add: digits_val_snoc)
  qed
qed

text \<open>
  \<open><u16 as FromStr>::from_str\<close>: an optional \<open>+\<close>, then at least one digit and nothing else,
  with a value that fits. A lone sign, a minus sign and an empty string are errors.
\<close>

definition parse_uint :: "nat \<Rightarrow> string \<Rightarrow> nat option" where
  "parse_uint bound s =
     (let ds = (case s of c # r \<Rightarrow> if c = CHR ''+'' then r else s | [] \<Rightarrow> [])
      in if ds \<noteq> [] \<and> list_all is_digit ds \<and> digits_val ds < bound
         then Some (digits_val ds) else None)"

definition parse_u16 :: "string \<Rightarrow> u16 option" where
  "parse_u16 s = map_option word_of_nat (parse_uint (2 ^ 16) s)"

lemma not_is_digit_simps [simp]:
  "is_digit CHR ''0''"
  "\<not> is_digit CHR ''+''" "\<not> is_digit CHR ''-''" "\<not> is_digit CHR ''.''" "\<not> is_digit CHR '':''"
  "\<not> is_digit CHR ''/''" "\<not> is_digit CHR ''e''" "\<not> is_digit CHR ''E''"
  by (simp_all add: is_digit_def char_code_def)

lemma show_nat_list_all: "list_all is_digit (show_nat n)"
  using show_nat_digits by (auto simp: list_all_iff)

lemma show_nat_not_in: "\<not> is_digit c \<Longrightarrow> c \<notin> set (show_nat n)"
  using show_nat_digits by blast

lemma parse_uint_show: "n < bound \<Longrightarrow> parse_uint bound (show_nat n) = Some n"
proof -
  assume n: "n < bound"
  obtain c r where s: "show_nat n = c # r" by (cases "show_nat n") auto
  have "c \<noteq> CHR ''+''" using show_nat_not_in [of "CHR ''+''" n] s by auto
  with n show ?thesis
    using show_nat_list_all [of n] digits_val_show_nat [of n]
    unfolding parse_uint_def Let_def s by auto
qed

lemma parse_u16_show: "parse_u16 (show_nat (unat p)) = Some p"
  using unsigned_less [of p, where ?'a = nat] by (simp add: parse_u16_def parse_uint_show)

section \<open>\<open>f64::from_str\<close>\<close>

text \<open>
  The accepted grammar: an optional sign, then \<open>inf\<close>, \<open>infinity\<close> or \<open>nan\<close> in any
  case, or digits with an optional point (at least one digit on either side of it) and an
  optional exponent. The value is the nearest double.
\<close>

definition take_digits :: "string \<Rightarrow> string \<times> string" where
  "take_digits s = (takeWhile is_digit s, dropWhile is_digit s)"

text \<open>The exponent part: nothing, or \<open>e\<close>, an optional sign and at least one digit.\<close>

definition parse_exponent :: "string \<Rightarrow> int option" where
  "parse_exponent s =
     (case s of
        [] \<Rightarrow> Some 0
      | c # r \<Rightarrow>
          if to_lower c = CHR ''e'' then
            (let (neg, ds) = (case r of
                 [] \<Rightarrow> (False, [])
               | d # q \<Rightarrow> if d = CHR ''-'' then (True, q)
                          else if d = CHR ''+'' then (False, q) else (False, r))
             in if ds \<noteq> [] \<and> list_all is_digit ds
                then Some (if neg then - int (digits_val ds) else int (digits_val ds)) else None)
          else None)"

text \<open>An unsigned decimal number: its digits as an integer and its decimal exponent.\<close>

definition parse_decimal :: "string \<Rightarrow> (nat \<times> int) option" where
  "parse_decimal s =
     (let (ip, r) = take_digits s;
          (fp, r') = (case r of
              c # q \<Rightarrow> if c = CHR ''.'' then take_digits q else ([], r)
            | [] \<Rightarrow> ([], []))
      in if ip = [] \<and> fp = [] then None
         else map_option (\<lambda>e. (digits_val (ip @ fp), e - int (length fp))) (parse_exponent r'))"

definition f64_of_decimal :: "bool \<Rightarrow> nat \<Rightarrow> int \<Rightarrow> f64" where
  "f64_of_decimal neg m e =
     f64_make neg (if 0 \<le> e then round_ratio (m * 10 ^ nat e) 1 1074
               else round_ratio m (10 ^ nat (- e)) 1074)"

lemma f64_of_decimal_code [code]:
  "f64_of_decimal neg m e =
     f64_make neg (if 0 \<le> e then round_ratio (nat (int m * 10 ^ nat e)) 1 1074
               else round_ratio m (nat (10 ^ nat (- e))) 1074)"
  by (simp add: f64_of_decimal_def nat_mult_distrib nat_power_eq)

definition parse_f64 :: "string \<Rightarrow> f64 option" where
  "parse_f64 s =
     (let (neg, r) = (case s of
          [] \<Rightarrow> (False, [])
        | c # q \<Rightarrow> if c = CHR ''-'' then (True, q)
                   else if c = CHR ''+'' then (False, q) else (False, s))
      in case parse_decimal r of
           Some (m, e) \<Rightarrow> Some (f64_of_decimal neg m e)
         | None \<Rightarrow>
             if to_lowercase r = ''inf'' \<or> to_lowercase r = ''infinity'' then Some (f64_inf neg)
             else if to_lowercase r = ''nan'' then Some (if neg then fneg f64_nan else f64_nan)
             else None)"

section \<open>Formatting\<close>

text \<open>
  \<open>{:.p}\<close> on a float: the exact value rounded half to even to \<open>p\<close> decimals, with the
  sign of the sign bit; NaN has no sign.
\<close>

definition fixed_digits :: "nat \<Rightarrow> nat \<Rightarrow> string" where
  "fixed_digits p n =
     (let f = show_nat (n mod 10 ^ p)
      in show_nat (n div 10 ^ p)
         @ (if p = 0 then [] else CHR ''.'' # replicate (p - length f) (CHR ''0'') @ f))"

definition scaled_units :: "nat \<Rightarrow> f64 \<Rightarrow> nat" where
  "scaled_units p x =
     div_round_even (mant x * 10 ^ p * 2 ^ (scl x - 1074)) (2 ^ (1074 - scl x))"

text \<open>For evaluation: a rounded quotient of integers.\<close>

definition div_even_int :: "int \<Rightarrow> int \<Rightarrow> int" where
  "div_even_int n d =
     (let q = n div d; r = n mod d in if 2 * r < d \<or> (2 * r = d \<and> even q) then q else q + 1)"

lemma scaled_units_code [code]:
  "scaled_units p x = nat (div_even_int
     (int (mant x) * 10 ^ p * pow2 (int (scl x) - 1074)) (pow2 (1074 - int (scl x))))"
proof -
  have p: "pow2 (1074 - int a) = 2 ^ (1074 - a)" "pow2 (int a - 1074) = 2 ^ (a - 1074)" for a
    using nat_pow2(2) [of 1074 a] nat_pow2(2) [of a 1074] by simp_all
  have "div_even_int (int n) (int d) = int (div_round_even n d)" for n d
    by (simp only: int_div_round_even div_even_int_def)
  from this [symmetric] have "div_round_even n d = nat (div_even_int (int n) (int d))" for n d
    by (metis nat_int)
  then show ?thesis unfolding scaled_units_def p
    by (simp only: of_nat_mult of_nat_power of_nat_numeral)
qed

definition fmt_f64 :: "nat \<Rightarrow> f64 \<Rightarrow> string" where
  "fmt_f64 p x =
     (if is_nan x then ''NaN''
      else (if f64_neg x then ''-'' else [])
           @ (if is_inf x then ''inf'' else fixed_digits p (scaled_units p x)))"

text \<open>\<open>{:>w}\<close>, \<open>{:<w}\<close> and \<open>{:^w}\<close>: padding with blanks, never truncating.\<close>

definition pad_left :: "nat \<Rightarrow> string \<Rightarrow> string" where
  "pad_left w s = replicate (w - length s) CHR '' '' @ s"

definition pad_right :: "nat \<Rightarrow> string \<Rightarrow> string" where
  "pad_right w s = s @ replicate (w - length s) CHR '' ''"

definition pad_center :: "nat \<Rightarrow> string \<Rightarrow> string" where
  "pad_center w s =
     (let n = w - length s
      in replicate (n div 2) CHR '' '' @ s @ replicate (n - n div 2) CHR '' '')"

lemma length_pad [simp]:
  "length (pad_left w s) = max w (length s)"
  "length (pad_right w s) = max w (length s)"
  "length (pad_center w s) = max w (length s)"
  by (simp_all add: pad_left_def pad_right_def pad_center_def Let_def)

section \<open>Reading back a fixed-point number\<close>

lemma digits_val_append: "digits_val (a @ b) = digits_val a * 10 ^ length b + digits_val b"
  by (induction b rule: rev_induct)
    (simp_all add: digits_val_snoc flip: append_assoc, simp_all add: digits_val_def)

lemma digits_val_zeros [simp]: "digits_val (replicate k (CHR ''0'') @ s) = digits_val s"
proof -
  have "digits_val (replicate k (CHR ''0'')) = 0"
    by (induction k) (simp_all add: digits_val_def digit_val_def char_code_def)
  then show ?thesis by (simp add: digits_val_append)
qed

lemma show_nat_length: "n < 10 ^ k \<Longrightarrow> 0 < k \<Longrightarrow> length (show_nat n) \<le> k"
proof (induction n arbitrary: k rule: show_nat.induct)
  case (1 n)
  show ?case
  proof (cases "n < 10")
    case True
    with "1.prems" show ?thesis by (subst show_nat.simps) simp
  next
    case False
    with "1.prems" have "1 < k" by (cases "k = 1") auto
    then obtain j where k: "k = Suc j" "0 < j" by (cases k) auto
    with "1.prems" have "n div 10 < 10 ^ j" by (simp add: div_less_iff_less_mult mult.commute)
    with "1.IH" [OF False this k(2)] False k show ?thesis by (subst show_nat.simps) simp
  qed
qed

lemma fixed_digits_split:
  assumes "0 < p"
  obtains f where "fixed_digits p n = show_nat (n div 10 ^ p) @ CHR ''.'' # f"
    "length f = p" "list_all is_digit f" "digits_val f = n mod 10 ^ p"
proof (rule that)
  let ?g = "show_nat (n mod 10 ^ p)"
  let ?f = "replicate (p - length ?g) (CHR ''0'') @ ?g"
  have "length ?g \<le> p" using assms by (intro show_nat_length) simp_all
  then show "length ?f = p" by simp
  show "fixed_digits p n = show_nat (n div 10 ^ p) @ CHR ''.'' # ?f"
    using assms by (simp add: fixed_digits_def Let_def)
  show "list_all is_digit ?f"
    using show_nat_list_all [of "n mod 10 ^ p"]
    by (auto simp: list_all_iff)
qed simp

lemma take_digits_append:
  assumes "list_all is_digit a" "b = [] \<or> \<not> is_digit (hd b)"
  shows "take_digits (a @ b) = (a, b)"
  using assms by (cases b) (auto simp: take_digits_def list_all_iff takeWhile_append dropWhile_append
    takeWhile_eq_all_conv dropWhile_eq_Nil_conv)

lemma parse_decimal_fixed_digits:
  assumes "0 < p"
  shows "parse_decimal (fixed_digits p n) = Some (n, - int p)"
proof -
  obtain f where f: "fixed_digits p n = show_nat (n div 10 ^ p) @ CHR ''.'' # f"
    "length f = p" "list_all is_digit f" "digits_val f = n mod 10 ^ p"
    using assms by (rule fixed_digits_split)
  have ip: "take_digits (show_nat (n div 10 ^ p) @ CHR ''.'' # f) = (show_nat (n div 10 ^ p), CHR ''.'' # f)"
    by (rule take_digits_append) (simp_all add: show_nat_list_all)
  have fp: "take_digits f = (f, [])" using take_digits_append [OF f(3), of "[]"] by simp
  have v: "digits_val (show_nat (n div 10 ^ p) @ f) = n"
    by (simp add: digits_val_append f div_mult_mod_eq)
  show ?thesis
    unfolding parse_decimal_def f(1) ip using f(2) v fp by (simp add: parse_exponent_def)
qed

lemma parse_f64_fixed_digits:
  assumes "0 < p"
  shows "parse_f64 (fixed_digits p n) = Some (f64_of_decimal False n (- int p))"
proof -
  obtain f where f: "fixed_digits p n = show_nat (n div 10 ^ p) @ CHR ''.'' # f"
    using assms by (rule fixed_digits_split)
  obtain c r where cr: "show_nat (n div 10 ^ p) = c # r" by (cases "show_nat (n div 10 ^ p)") auto
  then have "is_digit c" using show_nat_digits [of "n div 10 ^ p"] by simp
  then have "c \<noteq> CHR ''-''" "c \<noteq> CHR ''+''" by auto
  then show ?thesis
    using parse_decimal_fixed_digits [OF assms, of n] unfolding f cr parse_f64_def by simp
qed

end
