(* ===== verification/Model.thy ===== *)
theory Model
  imports F64_Round Rust_Str
begin

text \<open>
  \<open>src/model.rs\<close>: the \<open>Price\<close> and \<open>Amount\<close> newtypes over \<open>f64\<close> and the
  exchange-agnostic \<open>Book\<close>. \<open>Ord\<close> is \<open>f64::total_cmp\<close>, which makes both types linear
  orders; the derived \<open>PartialEq\<close> is the IEEE comparison of the wrapped floats.
\<close>

section \<open>Prices and amounts\<close>

datatype price = Price (price_f64: f64)

datatype amount = Amount (amount_f64: f64)

definition price_parse :: "string \<Rightarrow> price option" where
  "price_parse s = map_option Price (parse_f64 s)"

definition amount_parse :: "string \<Rightarrow> amount option" where
  "amount_parse s = map_option Amount (parse_f64 s)"

definition price_eq :: "price \<Rightarrow> price \<Rightarrow> bool" where
  "price_eq p q \<longleftrightarrow> feq (price_f64 p) (price_f64 q)"

definition amount_eq :: "amount \<Rightarrow> amount \<Rightarrow> bool" where
  "amount_eq p q \<longleftrightarrow> feq (amount_f64 p) (amount_f64 q)"

definition price_cmp :: "price \<Rightarrow> price \<Rightarrow> ordering" where
  "price_cmp p q = total_cmp (price_f64 p) (price_f64 q)"

definition amount_cmp :: "amount \<Rightarrow> amount \<Rightarrow> ordering" where
  "amount_cmp p q = total_cmp (amount_f64 p) (amount_f64 q)"

definition price_partial_cmp :: "price \<Rightarrow> price \<Rightarrow> ordering option" where
  "price_partial_cmp p q = Some (price_cmp p q)"

definition amount_partial_cmp :: "amount \<Rightarrow> amount \<Rightarrow> ordering option" where
  "amount_partial_cmp p q = Some (amount_cmp p q)"

definition price_display :: "price \<Rightarrow> string" where
  "price_display p = fmt_f64 8 (price_f64 p)"

definition amount_display :: "amount \<Rightarrow> string" where
  "amount_display p = fmt_f64 8 (amount_f64 p)"

definition f64_from_price :: "price \<Rightarrow> f64" where
  "f64_from_price p = price_f64 p"

definition f64_from_amount :: "amount \<Rightarrow> f64" where
  "f64_from_amount p = amount_f64 p"

instantiation price :: linorder
begin

definition less_eq_price :: "price \<Rightarrow> price \<Rightarrow> bool" where
  "p \<le> q \<longleftrightarrow> total_key (price_f64 p) \<le> total_key (price_f64 q)"

definition less_price :: "price \<Rightarrow> price \<Rightarrow> bool" where
  "p < q \<longleftrightarrow> total_key (price_f64 p) < total_key (price_f64 q)"

instance
  by standard (auto simp: less_eq_price_def less_price_def price.expand)

end

instantiation amount :: linorder
begin

definition less_eq_amount :: "amount \<Rightarrow> amount \<Rightarrow> bool" where
  "p \<le> q \<longleftrightarrow> total_key (amount_f64 p) \<le> total_key (amount_f64 q)"

definition less_amount :: "amount \<Rightarrow> amount \<Rightarrow> bool" where
  "p < q \<longleftrightarrow> total_key (amount_f64 p) < total_key (amount_f64 q)"

instance
  by standard (auto simp: less_eq_amount_def less_amount_def amount.expand)

end

lemma price_cmp_eq: "price_cmp p q = cmp p q"
  by (cases p; cases q) (simp add: price_cmp_def total_cmp_def cmp_def less_price_def)

lemma amount_cmp_eq: "amount_cmp p q = cmp p q"
  by (cases p; cases q) (simp add: amount_cmp_def total_cmp_def cmp_def less_amount_def)

section \<open>The book\<close>

type_synonym level = "price \<times> amount"

record book =
  bids :: "level list"
  asks :: "level list"
  last_update_id :: u64
  parse_started_at :: instant
  parsed_at :: instant

definition level_eq :: "level \<Rightarrow> level \<Rightarrow> bool" where
  "level_eq l m \<longleftrightarrow> price_eq (fst l) (fst m) \<and> amount_eq (snd l) (snd m)"

definition book_eq :: "book \<Rightarrow> book \<Rightarrow> bool" where
  "book_eq a b \<longleftrightarrow> list_all2 level_eq (bids a) (bids b) \<and> list_all2 level_eq (asks a) (asks b)
     \<and> last_update_id a = last_update_id b \<and> parse_started_at a = parse_started_at b
     \<and> parsed_at a = parsed_at b"

text \<open>
  The two list parsers of the Binance and Bitstamp feeds share this shape: the first level
  that does not parse rejects the whole list.
\<close>

definition parse_level :: "string \<times> string \<Rightarrow> level option" where
  "parse_level pa =
     (case price_parse (fst pa) of
        None \<Rightarrow> None
      | Some p \<Rightarrow> (case amount_parse (snd pa) of None \<Rightarrow> None | Some a \<Rightarrow> Some (p, a)))"

fun collect_options :: "'a option list \<Rightarrow> 'a list option" where
  "collect_options [] = Some []"
| "collect_options (None # xs) = None"
| "collect_options (Some x # xs) = map_option ((#) x) (collect_options xs)"

lemma collect_options_Some: "collect_options xs = Some ys \<longleftrightarrow> xs = map Some ys"
  by (induction xs arbitrary: ys rule: collect_options.induct) auto

lemma collect_options_None: "collect_options xs = None \<longleftrightarrow> None \<in> set xs"
  by (induction xs rule: collect_options.induct) auto

text \<open>A parsed list of levels corresponds to its strings one to one.\<close>

definition level_of :: "string \<times> string \<Rightarrow> level \<Rightarrow> bool" where
  "level_of pa l \<longleftrightarrow> price_parse (fst pa) = Some (fst l) \<and> amount_parse (snd pa) = Some (snd l)"

lemma parse_level_Some: "parse_level pa = Some l \<longleftrightarrow> level_of pa l"
  by (cases l) (auto simp: parse_level_def level_of_def split: option.splits)

lemma collect_parse_level_Some:
  "collect_options (map parse_level pas) = Some ls \<longleftrightarrow> list_all2 level_of pas ls"
proof -
  have "map parse_level pas = map Some ls \<longleftrightarrow> list_all2 (\<lambda>pa l. parse_level pa = Some l) pas ls"
    by (induction pas arbitrary: ls) (auto simp: list_all2_Cons1 Cons_eq_map_conv)
  then show ?thesis by (simp add: collect_options_Some parse_level_Some)
qed

section \<open>Display and parse\<close>

lemma rnd_near: "0 \<le> x \<Longrightarrow> \<bar>x - real n\<bar> < 1 / 2 \<Longrightarrow> rnd x = n"
  using rnd_error [of x] by linarith

lemma scale_quotient:
  "real (m * t * 2 ^ (s - c)) / real (2 ^ (c - s)) = real (m * 2 ^ s) * real t / 2 ^ c"
proof (cases "s \<le> c")
  case True
  then have "(2::real) ^ c = 2 ^ s * 2 ^ (c - s)" by (simp flip: power_add)
  with True show ?thesis by simp
next
  case False
  then have "(2::real) ^ s = 2 ^ c * 2 ^ (s - c)" by (simp flip: power_add)
  with False show ?thesis by simp
qed

lemma scaled_units_rnd:
  "scaled_units p x = rnd (real (units (abs_bits x)) * real (10 ^ p) / 2 ^ 1074)"
  unfolding scaled_units_def units_def mant_def [symmetric] scl_def [symmetric]
  by (subst scale_quotient [symmetric], subst rnd_div) (simp_all only: zero_less_power zero_less_numeral)

text \<open>
  A value with at most 52 bits of hundred-millionths survives: its nearest double is within
  \<open>2\<^sup>-\<^sup>5\<^sup>3\<close> relative, so the printed integer is the one that was read.
\<close>

lemma decimal_error:
  assumes "0 < n" "n < 2 ^ 52" "0 < d" "d < 2 ^ 1000"
    and small: "round_ratio n d 1074 < inf_bits"
  shows "\<bar>real (units (round_ratio n d 1074)) * real d / 2 ^ 1074 - real n\<bar> < 1 / 2"
proof -
  let ?v = "ratio n d 1074" and ?u = "real (units (round_ratio n d 1074))"
  define c :: real where "c = 2 ^ 1074"
  have c: "0 < c" by (simp add: c_def)
  have v: "?v = real n / real d * c"
    unfolding ratio_def c_def by (simp only: power_int_numeral)
  obtain k where k: "fits ?v k" "\<bar>?u - ?v\<bar> \<le> 2 ^ k / 2"
    using assms(1,3) small by (rule round_ratio_error)
  have "\<bar>?u * real d / c - real n\<bar> = \<bar>?u - ?v\<bar> * (real d / c)"
  proof -
    have "?u * real d / c - real n = (?u - ?v) * (real d / c)"
      using c assms(3) unfolding v by (simp add: field_simps)
    then show ?thesis using c by (simp add: abs_mult)
  qed
  also have "\<dots> \<le> 2 ^ k / 2 * (real d / c)"
    using k(2) c by (intro mult_right_mono) auto
  also have "\<dots> < 1 / 2"
  proof (cases "k = 0")
    case True
    have "real d < real (2 ^ 1000)" using assms(4) by (simp only: of_nat_less_iff)
    also have "\<dots> = 2 ^ 1000" by (simp only: of_nat_power of_nat_numeral)
    also have "\<dots> < c" unfolding c_def by (rule power_strict_increasing) simp_all
    finally show ?thesis using True c by simp
  next
    case False
    then have "2 ^ 52 * 2 ^ k \<le> ?v" using k(1) by (simp add: fits_def)
    then have "2 ^ k * (real d / c) \<le> ?v / 2 ^ 52 * (real d / c)"
      using c by (intro mult_right_mono) auto
    also have "\<dots> = real n / 2 ^ 52" using c assms(3) unfolding v by simp
    also have "\<dots> < 1" using assms(2) by simp
    finally show ?thesis by simp
  qed
  finally show ?thesis unfolding c_def .
qed

lemma round_ratio_small:
  assumes "n \<le> 2 ^ 52" "0 < d"
  shows "round_ratio n d 1074 < inf_bits"
proof -
  have "ratio n d 1074 \<le> ratio (2 ^ 52) 1 1074"
  proof -
    have "real n / real d \<le> real n / 1" using assms(2) by (intro divide_left_mono) auto
    also have "\<dots> \<le> real (2 ^ 52) / real 1" using assms(1) by simp
    finally show ?thesis unfolding ratio_def by (intro mult_right_mono) simp_all
  qed
  then have "round_ratio n d 1074 \<le> round_ratio (2 ^ 52) 1 1074"
    using assms(2) by (intro round_ratio_mono) simp_all
  also have "\<dots> < inf_bits" by code_simp
  finally show ?thesis .
qed

lemma scaled_units_of_decimal:
  assumes "n < 2 ^ 52" "p \<le> 300"
  shows "scaled_units p (f64_of_decimal False n (- int p)) = n"
proof -
  let ?b = "round_ratio n (10 ^ p) 1074"
  have d: "(0::nat) < 10 ^ p" by simp
  have "?b < inf_bits" using assms by (intro round_ratio_small) simp_all
  then have "?b < 2 ^ 63" using inf_bits_lt(1) by linarith
  then have "abs_bits (f64_make False ?b) = ?b" by simp
  moreover have "f64_of_decimal False n (- int p) = f64_make False ?b"
    by (cases "p = 0") (simp_all add: f64_of_decimal_def)
  ultimately have bits: "abs_bits (f64_of_decimal False n (- int p)) = ?b" by simp
  show ?thesis
  proof (cases "n = 0")
    case True
    then show ?thesis
      unfolding scaled_units_rnd bits
      by (simp add: round_ratio_def units_def bits_mant_def rnd_def)
  next
    case False
    have "(10::nat) ^ p \<le> 10 ^ 300" using assms(2) by (intro power_increasing) simp_all
    also have "(10::nat) ^ 300 < 2 ^ 1000"
    proof -
      have "((10::nat) ^ 3) ^ 100 < (2 ^ 10) ^ 100" by (rule power_strict_mono) simp_all
      then show ?thesis by (simp only: power_mult [symmetric] numeral_times_numeral) simp
    qed
    finally have "\<bar>real (units ?b) * real (10 ^ p) / 2 ^ 1074 - real n\<bar> < 1 / 2"
      using False assms(1) \<open>?b < inf_bits\<close> by (intro decimal_error) simp_all
    then show ?thesis unfolding scaled_units_rnd bits by (intro rnd_near) simp_all
  qed
qed

section \<open>Properties\<close>

text \<open>
  C18. Parsing a decimal string with eight decimals and displaying the price gives the same
  string back, for every value below \<open>2\<^sup>5\<^sup>2\<close> hundred-millionths (45 million units of the quote
  currency): no tick of the eight-decimal grid is lost to binary rounding.
\<close>

theorem price_display_parse:
  "n < 2 ^ 52 \<Longrightarrow>
   map_option price_display (price_parse (fixed_digits 8 n)) = Some (fixed_digits 8 n)"
proof -
  assume n: "n < 2 ^ 52"
  let ?x = "f64_of_decimal False n (- 8)"
  have b: "round_ratio n (10 ^ 8) 1074 < inf_bits" using n by (intro round_ratio_small) simp_all
  have x: "?x = f64_make False (round_ratio n (10 ^ 8) 1074)" by (simp add: f64_of_decimal_def)
  have ab: "round_ratio n (10 ^ 8) 1074 < 2 ^ 63" using b inf_bits_lt(1) by linarith
  then have "\<not> f64_neg ?x" "is_finite ?x" using b by (simp_all add: x is_finite_def)
  then have "fmt_f64 8 ?x = fixed_digits 8 (scaled_units 8 ?x)"
    by (simp add: fmt_f64_def is_finite_iff)
  also have "scaled_units 8 ?x = n" using scaled_units_of_decimal [of n 8] n by simp
  finally show ?thesis
    using parse_f64_fixed_digits [of 8 n] by (simp add: price_parse_def price_display_def)
qed

theorem price_display_parse_witness:
  "(3150000 :: nat) < 2 ^ 52 \<and> fixed_digits 8 3150000 = ''0.03150000'' \<and>
   map_option price_display (price_parse ''0.03150000'') = Some ''0.03150000''"
proof -
  have n: "(3150000 :: nat) < 2 ^ 52" by simp
  have f: "fixed_digits 8 3150000 = ''0.03150000''" by code_simp
  show ?thesis using n f price_display_parse [OF n] by simp
qed

text \<open>
  C19. The order and the equality of prices are the numeric ones wherever both exist: a price
  that is numerically smaller sorts first, and \<open>==\<close> disagrees with \<open>cmp\<close> exactly on a NaN
  compared with itself and on the two zeros compared with each other.
\<close>

theorem price_eq_cmp:
  "(flt (price_f64 p) (price_f64 q) \<longrightarrow> price_cmp p q = Less) \<and>
   (price_eq p q \<noteq> (price_cmp p q = Equal) \<longleftrightarrow>
      (p = q \<and> is_nan (price_f64 p)) \<or>
      (p \<noteq> q \<and> is_zero (price_f64 p) \<and> is_zero (price_f64 q)))"
proof -
  have zero: "is_zero x \<Longrightarrow> \<not> is_nan x" for x by (simp add: is_zero_def is_nan_def)
  show ?thesis
    by (cases p; cases q) (auto simp: price_eq_def price_cmp_def feq_iff dest: flt_total_key zero)
qed

theorem price_eq_cmp_witness:
  "flt 0x3ff0000000000000 0x4000000000000000 \<and>
   price_cmp (Price 0x3ff0000000000000) (Price 0x4000000000000000) = Less \<and>
   price_eq (Price 0) (Price 0x8000000000000000) \<noteq>
     (price_cmp (Price 0) (Price 0x8000000000000000) = Equal)"
proof -
  have one: "flt 0x3ff0000000000000 0x4000000000000000" by code_simp
  have zeros: "is_zero 0" "is_zero 0x8000000000000000" by code_simp+
  show ?thesis
    using one zeros price_eq_cmp [of "Price 0x3ff0000000000000" "Price 0x4000000000000000"]
      price_eq_cmp [of "Price 0" "Price 0x8000000000000000"] by simp
qed

end
