(* ===== verification/BTree.thy ===== *)
theory BTree
  imports Prelude
begin

text \<open>
  \<open>std::collections::BTreeMap\<close> as the list of its entries in key order, the laws its clients
  rely on as a locale, and the model's interpretation of them. \<open>collect\<close> builds a map from an
  iterator of entries by repeated insertion.
\<close>

type_synonym ('k, 'v) btree = "('k \<times> 'v) list"

definition bt_empty :: "('k, 'v) btree" where
  "bt_empty = []"

fun bt_insert :: "'k::linorder \<Rightarrow> 'v \<Rightarrow> ('k, 'v) btree \<Rightarrow> ('k, 'v) btree" where
  "bt_insert k v [] = [(k, v)]"
| "bt_insert k v ((l, w) # m) =
     (if k < l then (k, v) # (l, w) # m
      else if k = l then (k, v) # m
      else (l, w) # bt_insert k v m)"

definition bt_get :: "('k, 'v) btree \<Rightarrow> 'k \<Rightarrow> 'v option" where
  "bt_get m k = map_of m k"

definition bt_iter :: "('k, 'v) btree \<Rightarrow> ('k \<times> 'v) list" where
  "bt_iter m = m"

definition bt_is_empty :: "('k, 'v) btree \<Rightarrow> bool" where
  "bt_is_empty m \<longleftrightarrow> m = []"

definition bt_collect :: "('k::linorder \<times> 'v) list \<Rightarrow> ('k, 'v) btree" where
  "bt_collect xs = foldl (\<lambda>m (k, v). bt_insert k v m) bt_empty xs"

definition bt_sorted :: "('k::linorder, 'v) btree \<Rightarrow> bool" where
  "bt_sorted m \<longleftrightarrow> sorted_wrt (<) (map fst m)"

section \<open>The contract of an ordered map\<close>

locale ordered_map =
  fixes empty :: "'m"
    and insert :: "'k::linorder \<Rightarrow> 'v \<Rightarrow> 'm \<Rightarrow> 'm"
    and get :: "'m \<Rightarrow> 'k \<Rightarrow> 'v option"
    and iter :: "'m \<Rightarrow> ('k \<times> 'v) list"
    and invar :: "'m \<Rightarrow> bool"
  assumes invar_empty: "invar empty"
    and invar_insert: "invar m \<Longrightarrow> invar (insert k v m)"
    and get_empty: "get empty k = None"
    and get_insert: "get (insert k v m) l = (if l = k then Some v else get m l)"
    and iter_sorted: "invar m \<Longrightarrow> sorted_wrt (<) (map fst (iter m))"
    and iter_get: "invar m \<Longrightarrow> (k, v) \<in> set (iter m) \<longleftrightarrow> get m k = Some v"
begin

lemma iter_distinct: "invar m \<Longrightarrow> distinct (map fst (iter m))"
  using iter_sorted strict_sorted_iff by blast

lemma invar_foldl_insert:
  "invar m \<Longrightarrow> invar (foldl (\<lambda>m (k, v). insert k v m) m xs)"
  by (induction xs arbitrary: m) (auto simp: invar_insert)

lemma get_foldl_insert:
  "get (foldl (\<lambda>m (k, v). insert k v m) m xs) l
     = (case map_of (rev xs) l of Some v \<Rightarrow> Some v | None \<Rightarrow> get m l)"
  by (induction xs rule: rev_induct) (auto simp: get_insert split: option.splits)

text \<open>Two maps with the same bindings iterate alike.\<close>

lemma iter_cong:
  assumes "invar m" "invar n" "\<And>k. get m k = get n k"
  shows "iter m = iter n"
proof -
  have set: "set (iter m) = set (iter n)"
    using assms by (auto simp: iter_get)
  have "sorted (map fst (iter m))" "sorted (map fst (iter n))"
    using assms iter_sorted strict_sorted_iff by blast+
  moreover have "distinct (map fst (iter m))" "distinct (map fst (iter n))"
    using iter_distinct assms by blast+
  moreover from this have "inj_on fst (set (iter m) \<union> set (iter n))"
    using set by (simp add: distinct_map)
  ultimately show ?thesis
    using set by (intro map_sorted_distinct_set_unique [of fst]) auto
qed

end

section \<open>The model provides it\<close>

lemma bt_insert_keys: "set (map fst (bt_insert k v m)) = insert k (set (map fst m))"
  by (induction k v m rule: bt_insert.induct) auto

lemma bt_sorted_insert: "bt_sorted m \<Longrightarrow> bt_sorted (bt_insert k v m)"
proof (induction k v m rule: bt_insert.induct)
  case (2 k v l w m)
  then show ?case
    using bt_insert_keys [of k v m] by (auto simp: bt_sorted_def)
qed (simp add: bt_sorted_def)

lemma bt_get_insert: "bt_get (bt_insert k v m) l = (if l = k then Some v else bt_get m l)"
  unfolding bt_get_def by (induction k v m rule: bt_insert.induct) auto

lemma bt_iter_get: "bt_sorted m \<Longrightarrow> (k, v) \<in> set (bt_iter m) \<longleftrightarrow> bt_get m k = Some v"
  by (auto simp: bt_sorted_def bt_iter_def bt_get_def strict_sorted_iff)

interpretation bt: ordered_map bt_empty bt_insert bt_get bt_iter bt_sorted
proof unfold_locales
  show "bt_sorted bt_empty" by (simp add: bt_sorted_def bt_empty_def)
  show "bt_get bt_empty k = None" for k :: 'a by (simp add: bt_get_def bt_empty_def)
  show "bt_sorted m \<Longrightarrow> sorted_wrt (<) (map fst (bt_iter m))" for m :: "('a, 'b) btree"
    by (simp add: bt_sorted_def bt_iter_def)
qed (simp_all add: bt_sorted_insert bt_get_insert bt_iter_get)

lemma bt_sorted_collect: "bt_sorted (bt_collect xs)"
  unfolding bt_collect_def by (intro bt.invar_foldl_insert bt.invar_empty)

lemma bt_get_collect: "bt_get (bt_collect xs) k = map_of (rev xs) k"
  unfolding bt_collect_def by (simp add: bt.get_foldl_insert bt.get_empty split: option.splits)

lemma map_of_rev_distinct: "distinct (map fst xs) \<Longrightarrow> map_of (rev xs) k = map_of xs k"
proof (cases "map_of xs k")
  case None
  moreover from this have "map_of (rev xs) k = None" by (simp add: map_of_eq_None_iff)
  ultimately show ?thesis by simp
next
  case (Some v)
  assume "distinct (map fst xs)"
  then have "map_of (rev xs) k = Some v"
    using map_of_SomeD [OF Some] by (simp flip: rev_map)
  with Some show ?thesis by simp
qed

text \<open>Collecting entries that are already in key order changes nothing.\<close>

lemma bt_collect_sorted:
  assumes "sorted_wrt (<) (map fst xs)"
  shows "bt_collect xs = xs"
proof -
  have xs: "bt_sorted xs" using assms by (simp add: bt_sorted_def)
  then have "distinct (map fst xs)" using strict_sorted_iff assms by blast
  then have "bt_get (bt_collect xs) k = bt_get xs k" for k
    unfolding bt_get_collect by (simp add: bt_get_def map_of_rev_distinct)
  then have "bt_iter (bt_collect xs) = bt_iter xs"
    using xs by (intro bt.iter_cong bt_sorted_collect) auto
  then show ?thesis by (simp add: bt_iter_def)
qed

text \<open>So filtering and mapping the values of a map, then collecting, is filtering and mapping.\<close>

lemma bt_collect_map_filter:
  assumes "bt_sorted m" "\<And>x. fst (g x) = fst x"
  shows "bt_collect (map g (filter P m)) = map g (filter P m)" "bt_sorted (map g (filter P m))"
proof -
  have "sorted_wrt (<) (map fst (filter P m))"
    using assms(1) by (simp add: bt_sorted_def sorted_wrt_map sorted_wrt_filter)
  then have "sorted_wrt (<) (map fst (map g (filter P m)))" by (simp add: comp_def assms(2))
  then show "bt_collect (map g (filter P m)) = map g (filter P m)" "bt_sorted (map g (filter P m))"
    by (simp_all add: bt_collect_sorted bt_sorted_def)
qed

end
