(* ===== verification/Rust_Time.thy ===== *)
theory Rust_Time
  imports Model
begin

text \<open>
  \<open>std::time::Duration\<close> against floating point: \<open>as_secs_f64\<close>, \<open>from_secs_f64\<close> and
  \<open>mul_f64\<close>, the float literals the sources use with them, and how rounding orders the
  results (monotone sums and products, signs, bounds).
\<close>

section \<open>Literals\<close>

definition f64_five :: f64 where "f64_five = 0x4014000000000000"
definition f64_one :: f64 where "f64_one = 0x3ff0000000000000"
definition f64_half :: f64 where "f64_half = 0x3fe0000000000000"
definition f64_three_halves :: f64 where "f64_three_halves = 0x3ff8000000000000"

section \<open>Conversions\<close>

text \<open>\<open>Duration::as_secs_f64\<close>: whole seconds plus the nanoseconds' quotient.\<close>

definition f64_1e9 :: f64 where
  "f64_1e9 = 0x41cdcd6500000000"

definition as_secs_f64 :: "duration \<Rightarrow> f64" where
  "as_secs_f64 d =
     fadd (f64_of_nat (d div 10 ^ 9)) (fdiv (f64_of_nat (d mod 10 ^ 9)) f64_1e9)"

text \<open>
  \<open>Duration::from_secs_f64\<close> rounds the exact value to the nearest nanosecond, ties to even;
  it panics on negative, infinite and NaN arguments and on values past the range of
  \<open>Duration\<close> (\<open>2\<^sup>6\<^sup>4\<close> seconds).
\<close>

definition from_secs_f64 :: "f64 \<Rightarrow> duration outcome" where
  "from_secs_f64 x =
     (if \<not> is_finite x \<or> (f64_neg x \<and> \<not> is_zero x) \<or> 2 ^ 64 * 10 ^ 9 \<le> scaled_units 9 x
      then Panic else Done (scaled_units 9 x))"

text \<open>For evaluation: the same on integer literals.\<close>

lemma as_secs_f64_code [code]:
  "as_secs_f64 d = fadd (f64_of_nat (nat (int d div 1000000000)))
     (fdiv (f64_of_nat (nat (int d mod 1000000000))) f64_1e9)"
  by (simp add: as_secs_f64_def nat_div_distrib nat_mod_distrib)

lemma from_secs_f64_code [code]:
  "from_secs_f64 x =
     (let n = int (scaled_units 9 x)
      in if \<not> is_finite x \<or> (f64_neg x \<and> \<not> is_zero x) \<or> 0x3b9aca000000000000000000 \<le> n
         then Panic else Done (nat n))"
proof -
  have "(0x3b9aca000000000000000000 :: int) \<le> int n \<longleftrightarrow> 2 ^ 64 * 10 ^ 9 \<le> n" for n by simp
  then show ?thesis by (simp only: from_secs_f64_def Let_def nat_int)
qed

definition mul_f64 :: "duration \<Rightarrow> f64 \<Rightarrow> duration outcome" where
  "mul_f64 d x = from_secs_f64 (fmul x (as_secs_f64 d))"

section \<open>Rounding is monotone\<close>

lemma units_le_iff: "b \<le> inf_bits \<Longrightarrow> c \<le> inf_bits \<Longrightarrow> units b \<le> units c \<longleftrightarrow> b \<le> c"
  using units_less_iff [of c b] by (simp add: not_less [symmetric])

text \<open>A rounded magnitude against a representable one.\<close>

lemma round_ratio_le_bits:
  assumes "0 < d" "ratio n d e \<le> real (units c)" "c < inf_bits"
  shows "round_ratio n d e \<le> c"
proof -
  have "round_ratio n d e \<le> round_ratio (units c) 1 0"
    using assms(1,2) by (intro round_ratio_mono) simp_all
  also have "round_ratio (units c) 1 0 = c" using assms(3) by (intro round_ratio_exact) simp_all
  finally show ?thesis .
qed

lemma bits_le_round_ratio:
  assumes "0 < d" "real (units c) \<le> ratio n d e" "c < inf_bits"
  shows "c \<le> round_ratio n d e"
proof -
  have "c = round_ratio (units c) 1 0" using assms(3) by (intro round_ratio_exact [symmetric]) simp_all
  also have "\<dots> \<le> round_ratio n d e" using assms(1,2) by (intro round_ratio_mono) simp_all
  finally show ?thesis .
qed

text \<open>A finite sum lies between bounds its exact value lies between.\<close>

lemma fadd_bounds:
  assumes "is_finite x" "is_finite y" "is_finite c"
  shows "sval x + sval y \<le> sval c \<Longrightarrow> fle (fadd x y) c"
    and "sval c \<le> sval x + sval y \<Longrightarrow> fle c (fadd x y)"
proof -
  obtain s m where sum: "sval x + sval y = s * 2 ^ m"
    and fadd: "fadd x y = (if s = 0 then f64_zero (f64_neg x \<and> f64_neg y)
      else f64_make (s < 0) (round_ratio (nat \<bar>s\<bar>) 1 (int m)))"
    using assms(1,2) by (rule fadd_exact)
  have c: "abs_bits c < inf_bits" "abs_bits c \<le> inf_bits" "\<not> is_nan c"
    using assms(3) by (simp_all add: is_finite_iff) (auto simp: is_inf_def is_nan_def)
  have r: "ratio (nat \<bar>s\<bar>) 1 (int m) = real_of_int \<bar>s * 2 ^ m\<bar>"
    by (simp add: ratio_def abs_mult power_int_def)
  have key: "ieee_key (fadd x y) = (if s = 0 then 0 else if s < 0
      then - int (round_ratio (nat \<bar>s\<bar>) 1 (int m)) else int (round_ratio (nat \<bar>s\<bar>) 1 (int m)))"
    by (simp add: fadd ieee_key_def f64_zero_def)
  have up: "real_of_int \<bar>s * 2 ^ m\<bar> \<le> real (units (abs_bits c)) \<Longrightarrow>
      round_ratio (nat \<bar>s\<bar>) 1 (int m) \<le> abs_bits c"
    by (rule round_ratio_le_bits [OF _ _ c(1)]) (simp_all only: r zero_less_one)
  have down: "real (units (abs_bits c)) \<le> real_of_int \<bar>s * 2 ^ m\<bar> \<Longrightarrow>
      abs_bits c \<le> round_ratio (nat \<bar>s\<bar>) 1 (int m)"
    by (rule bits_le_round_ratio [OF _ _ c(1)]) (simp_all only: r zero_less_one)
  have zero: "units (abs_bits c) = 0 \<Longrightarrow> abs_bits c = 0"
    using units_pos [of "abs_bits c"] c(2) by (cases "abs_bits c = 0") auto
  have sgn: "s < 0 \<longleftrightarrow> s * 2 ^ m < 0" by (simp add: mult_less_0_iff)
  have reals: "real_of_int \<bar>v\<bar> \<le> real k \<longleftrightarrow> \<bar>v\<bar> \<le> int k" "real k \<le> real_of_int \<bar>v\<bar> \<longleftrightarrow> int k \<le> \<bar>v\<bar>" for v k
    by linarith+
  note nan = fadd_finite(1) [OF assms(1,2)]
  show "sval x + sval y \<le> sval c \<Longrightarrow> fle (fadd x y) c"
    using up down zero nan c(3) unfolding sum fle_def key reals
    by (auto simp: sval_def ieee_key_def sgn split: if_splits)
  show "sval c \<le> sval x + sval y \<Longrightarrow> fle c (fadd x y)"
    using up down zero nan c(3) unfolding sum fle_def key reals
    by (auto simp: sval_def ieee_key_def sgn split: if_splits)
qed

text \<open>A product of positive values grows with its factors.\<close>

lemma fmul_ratio:
  "ratio (mant x * mant y) 1 (int (scl x) + int (scl y) - 1074)
     = real (units (abs_bits x)) * real (units (abs_bits y)) / 2 ^ 1074"
proof -
  have "(2::real) powi (int a + int b - 1074) = 2 ^ a * 2 ^ b / 2 ^ 1074" for a b
    by (simp add: power_int_diff power_int_add)
  then show ?thesis by (simp add: ratio_def units_def mant_def scl_def)
qed

definition pos_finite :: "f64 \<Rightarrow> bool" where
  "pos_finite x \<longleftrightarrow> is_finite x \<and> \<not> f64_neg x"

lemma fmul_pos:
  assumes "pos_finite x" "pos_finite y"
  shows "abs_bits (fmul x y) = round_ratio (mant x * mant y) 1 (int (scl x) + int (scl y) - 1074)"
    "\<not> f64_neg (fmul x y)"
  using assms by (simp_all add: fmul_def pos_finite_def is_finite_iff)

lemma fmul_mono:
  assumes "pos_finite x" "pos_finite y" "pos_finite c" "abs_bits x \<le> abs_bits y"
  shows "abs_bits (fmul x c) \<le> abs_bits (fmul y c)"
proof -
  have "abs_bits x \<le> inf_bits" "abs_bits y \<le> inf_bits"
    using assms(1,2) by (simp_all add: pos_finite_def is_finite_def)
  then have "units (abs_bits x) \<le> units (abs_bits y)" using assms(4) by (simp add: units_le_iff)
  then have "real (units (abs_bits x)) * real (units (abs_bits c)) / 2 ^ 1074
      \<le> real (units (abs_bits y)) * real (units (abs_bits c)) / 2 ^ 1074"
    by (intro divide_right_mono mult_right_mono) auto
  then have "ratio (mant x * mant c) 1 (int (scl x) + int (scl c) - 1074)
      \<le> ratio (mant y * mant c) 1 (int (scl y) + int (scl c) - 1074)" by (simp only: fmul_ratio)
  then show ?thesis
    unfolding fmul_pos(1) [OF assms(1,3)] fmul_pos(1) [OF assms(2,3)]
    by (intro round_ratio_mono) simp_all
qed

text \<open>A quotient grows with its numerator.\<close>

lemma fdiv_ratio:
  assumes "is_finite y" "\<not> is_zero y"
  shows "ratio (mant x) (mant y) (int (scl x) - int (scl y) + 1074)
     = real (units (abs_bits x)) / real (units (abs_bits y)) * 2 ^ 1074"
proof -
  have "(2::real) powi (int a - int b + 1074) = 2 ^ a / 2 ^ b * 2 ^ 1074" for a b
    by (simp add: power_int_diff power_int_add)
  then show ?thesis by (simp add: ratio_def units_def mant_def scl_def)
qed

lemma mant_pos: "\<not> is_zero y \<Longrightarrow> 0 < mant y"
  by (auto simp: mant_def bits_mant_def is_zero_def)

lemma fdiv_mono:
  assumes "pos_finite x" "pos_finite y" "pos_finite c" "\<not> is_zero c" "abs_bits x \<le> abs_bits y"
  shows "abs_bits (fdiv x c) \<le> abs_bits (fdiv y c)"
proof -
  have c: "is_finite c" using assms(3) by (simp add: pos_finite_def)
  have q: "abs_bits (fdiv z c) = round_ratio (mant z) (mant c) (int (scl z) - int (scl c) + 1074)"
    if "pos_finite z" for z
    using that assms(3,4) by (simp add: fdiv_def pos_finite_def is_finite_iff)
  have "abs_bits x \<le> inf_bits" "abs_bits y \<le> inf_bits"
    using assms(1,2) by (simp_all add: pos_finite_def is_finite_def)
  then have "units (abs_bits x) \<le> units (abs_bits y)" using assms(5) by (simp add: units_le_iff)
  then have "real (units (abs_bits x)) / real (units (abs_bits c)) * 2 ^ 1074
      \<le> real (units (abs_bits y)) / real (units (abs_bits c)) * 2 ^ 1074"
    by (intro divide_right_mono mult_right_mono) auto
  then have "ratio (mant x) (mant c) (int (scl x) - int (scl c) + 1074)
      \<le> ratio (mant y) (mant c) (int (scl y) - int (scl c) + 1074)"
    by (simp only: fdiv_ratio [OF c assms(4)])
  then show ?thesis
    unfolding q [OF assms(1)] q [OF assms(2)] using mant_pos [OF assms(4)]
    by (intro round_ratio_mono) simp_all
qed

lemma fdiv_antimono:
  assumes "pos_finite x" "pos_finite c" "pos_finite d" "\<not> is_zero c" "abs_bits c \<le> abs_bits d"
  shows "abs_bits (fdiv x d) \<le> abs_bits (fdiv x c)"
proof -
  have fin: "is_finite c" "is_finite d" using assms(2,3) by (simp_all add: pos_finite_def)
  have d: "\<not> is_zero d" using assms(4,5) by (auto simp: is_zero_def)
  have q: "abs_bits (fdiv x z) = round_ratio (mant x) (mant z) (int (scl x) - int (scl z) + 1074)"
    if "pos_finite z" "\<not> is_zero z" for z
    using that assms(1) by (simp add: fdiv_def pos_finite_def is_finite_iff)
  have le: "abs_bits c \<le> inf_bits" "abs_bits d \<le> inf_bits"
    using assms(2,3) by (simp_all add: pos_finite_def is_finite_def)
  then have "0 < units (abs_bits c)" "units (abs_bits c) \<le> units (abs_bits d)"
    using assms(4,5) by (simp_all add: units_le_iff units_pos is_zero_def)
  then have "real (units (abs_bits x)) / real (units (abs_bits d)) * 2 ^ 1074
      \<le> real (units (abs_bits x)) / real (units (abs_bits c)) * 2 ^ 1074"
    by (intro mult_right_mono divide_left_mono) auto
  then have "ratio (mant x) (mant d) (int (scl x) - int (scl d) + 1074)
      \<le> ratio (mant x) (mant c) (int (scl x) - int (scl c) + 1074)"
    by (simp only: fdiv_ratio [OF fin(1) assms(4)] fdiv_ratio [OF fin(2) d])
  then show ?thesis
    unfolding q [OF assms(2,4)] q [OF assms(3) d] using mant_pos [OF assms(4)] mant_pos [OF d]
    by (intro round_ratio_mono) simp_all
qed

text \<open>So does a duration read from a positive value.\<close>

lemma scaled_units_mono:
  assumes "abs_bits x \<le> abs_bits y" "abs_bits y \<le> inf_bits"
  shows "scaled_units p x \<le> scaled_units p y"
proof -
  have "units (abs_bits x) \<le> units (abs_bits y)" using assms by (simp add: units_le_iff)
  then have "real (units (abs_bits x)) * real (10 ^ p) / 2 ^ 1074
      \<le> real (units (abs_bits y)) * real (10 ^ p) / 2 ^ 1074"
    by (intro divide_right_mono mult_right_mono) auto
  then show ?thesis unfolding scaled_units_rnd by (intro rnd_mono) simp_all
qed

lemma from_secs_f64_between:
  assumes "abs_bits lo \<le> abs_bits x" "abs_bits x \<le> abs_bits hi" "\<not> f64_neg x"
    and "from_secs_f64 lo = Done a" "from_secs_f64 hi = Done b" "is_finite hi"
  shows "\<exists>w. from_secs_f64 x = Done w \<and> a \<le> w \<and> w \<le> b"
proof -
  have x: "is_finite x" "abs_bits x \<le> inf_bits" using assms(2,6) by (auto simp: is_finite_def)
  have le: "scaled_units 9 lo \<le> scaled_units 9 x" "scaled_units 9 x \<le> scaled_units 9 hi"
    using assms(1,2,6) x by (auto intro!: scaled_units_mono simp: is_finite_def)
  have ends: "a = scaled_units 9 lo" "b = scaled_units 9 hi" "scaled_units 9 hi < 2 ^ 64 * 10 ^ 9"
    using assms(4,5) unfolding from_secs_f64_def by (metis outcome.distinct(1) outcome.inject not_le)+
  then have "scaled_units 9 x < 2 ^ 64 * 10 ^ 9" using le(2) by linarith
  then have "from_secs_f64 x = Done (scaled_units 9 x)"
    using x(1) assms(3) unfolding from_secs_f64_def by (metis not_le)
  with le ends show ?thesis by blast
qed

end
