(* ===== verification/Exchange.thy ===== *)
theory Exchange
  imports Model BTree Rust_Time
begin

text \<open>
  \<open>src/exchange/mod.rs\<close>: the venues with their constants, and the \<open>Exchange\<close> trait. A trait
  object is a record of its four operations over the implementor's state \<open>'s\<close> (\<open>unit\<close> for
  Binance and Bitstamp, the held book for Kraken); \<open>parse\<close> takes the two clock readings its
  body makes and returns the new state beside the book. The locale states what the feed
  driver relies on; each venue's theory interprets it.
\<close>

section \<open>Venues\<close>

datatype venue = Binance | Bitstamp | Kraken

fun venue_display :: "venue \<Rightarrow> string" where
  "venue_display Binance = ''binance''"
| "venue_display Bitstamp = ''bitstamp''"
| "venue_display Kraken = ''kraken''"

text \<open>\<open>derive(PartialOrd, Ord)\<close>: the declaration order.\<close>

fun venue_index :: "venue \<Rightarrow> nat" where
  "venue_index Binance = 0"
| "venue_index Bitstamp = 1"
| "venue_index Kraken = 2"

lemma venue_index_inject [simp]: "venue_index v = venue_index w \<longleftrightarrow> v = w"
  by (cases v; cases w) auto

instantiation venue :: linorder
begin

definition less_eq_venue :: "venue \<Rightarrow> venue \<Rightarrow> bool" where
  "v \<le> w \<longleftrightarrow> venue_index v \<le> venue_index w"

definition less_venue :: "venue \<Rightarrow> venue \<Rightarrow> bool" where
  "v < w \<longleftrightarrow> venue_index v < venue_index w"

instance
  by standard (auto simp: less_eq_venue_def less_venue_def)

end

lemma venue_display_inject [simp]: "venue_display v = venue_display w \<longleftrightarrow> v = w"
  by (cases v; cases w) auto

text \<open>\<open>(capacity, tokens_per_second)\<close>, the literals as the doubles they denote.\<close>

fun connect_rate :: "venue \<Rightarrow> f64 \<times> f64" where
  "connect_rate Binance = (f64_five, f64_one)"
| "connect_rate Bitstamp = (f64_five, f64_half)"
| "connect_rate Kraken = (f64_five, f64_half)"

fun staleness_threshold :: "venue \<Rightarrow> duration outcome" where
  "staleness_threshold Binance = from_secs_f64 f64_three_halves"
| "staleness_threshold Bitstamp = Done (from_secs 8)"
| "staleness_threshold Kraken = Done (from_secs 12)"

definition threshold_ns :: "venue \<Rightarrow> duration" where
  "threshold_ns v = (case v of Binance \<Rightarrow> from_millis 1500 | Bitstamp \<Rightarrow> from_secs 8 | Kraken \<Rightarrow> from_secs 12)"

lemma staleness_threshold_eq: "staleness_threshold v = Done (threshold_ns v)"
proof (cases v)
  case Binance
  have "from_secs_f64 f64_three_halves = Done 1500000000" by code_simp
  with Binance show ?thesis by (simp add: threshold_ns_def from_millis_def)
qed (simp_all add: threshold_ns_def)

section \<open>The \<open>Exchange\<close> trait\<close>

text \<open>The clock readings of one \<open>parse\<close> call: at its start and at the construction of the book.\<close>

type_synonym stamps = "instant \<times> instant"

record 's exchange =
  ex_venue :: venue
  ex_connect_url :: "string \<Rightarrow> string"
  ex_subscribe_message :: "string \<Rightarrow> string option"
  ex_parse :: "'s \<Rightarrow> string \<Rightarrow> stamps \<Rightarrow> ('s \<times> book option) outcome"

text \<open>A feed's messages in arrival order: the state is threaded, the results are collected.\<close>

fun parse_all :: "'s exchange \<Rightarrow> 's \<Rightarrow> (string \<times> stamps) list \<Rightarrow> ('s \<times> book option list) outcome" where
  "parse_all ex s [] = Done (s, [])"
| "parse_all ex s ((raw, t) # ms) =
     bind_outcome (ex_parse ex s raw t) (\<lambda>(s', r).
       bind_outcome (parse_all ex s' ms) (\<lambda>(s'', rs). Done (s'', r # rs)))"

lemma parse_all_append:
  "parse_all ex s (xs @ ys) = bind_outcome (parse_all ex s xs) (\<lambda>(s', rs).
     bind_outcome (parse_all ex s' ys) (\<lambda>(s'', qs). Done (s'', rs @ qs)))"
proof (induction xs arbitrary: s)
  case Nil
  show ?case by (cases "parse_all ex s ys") auto
next
  case (Cons m xs)
  then show ?case by (cases m) (simp add: bind_outcome_assoc split_def)
qed

locale exchange_contract =
  fixes ex :: "'s exchange"
    and inv :: "'s \<Rightarrow> bool"
    and init :: 's
  assumes inv_init: "inv init"
    and parse_returns: "inv s \<Longrightarrow> ex_parse ex s raw t \<noteq> Panic"
    and parse_inv: "inv s \<Longrightarrow> ex_parse ex s raw t = Done (s', r) \<Longrightarrow> inv s'"
    and parse_stamps: "ex_parse ex s raw t = Done (s', Some b) \<Longrightarrow>
      parse_started_at b = fst t \<and> parsed_at b = snd t"
begin

lemma parse_cases:
  assumes "inv s"
  obtains s' r where "ex_parse ex s raw t = Done (s', r)" "inv s'"
proof (cases "ex_parse ex s raw t")
  case Panic
  with parse_returns [OF assms] show ?thesis by blast
next
  case (Done sr)
  then obtain s' r where "ex_parse ex s raw t = Done (s', r)" by (cases sr) auto
  with parse_inv [OF assms] that show ?thesis by blast
qed

text \<open>So a feed of any messages runs to its end, one result for each message.\<close>

lemma parse_all_returns:
  "inv s \<Longrightarrow> \<exists>s' rs. parse_all ex s ms = Done (s', rs) \<and> inv s' \<and> length rs = length ms"
proof (induction ms arbitrary: s)
  case (Cons m ms)
  obtain raw t where m: "m = (raw, t)" by (cases m)
  obtain s' r where p: "ex_parse ex s raw t = Done (s', r)" "inv s'"
    using Cons.prems by (rule parse_cases)
  from Cons.IH [OF p(2)] p(1) show ?case by (auto simp: m)
qed simp

lemma parse_all_init: "\<exists>s rs. parse_all ex init ms = Done (s, rs) \<and> inv s \<and> length rs = length ms"
  by (rule parse_all_returns [OF inv_init])

end

end
