(* ===== verification/Binance_Feed.thy ===== *)
theory Binance_Feed
  imports Exchange
begin

text \<open>
  \<open>src/exchange/binance.rs\<close>: the connect URL and the parser of the \<open>depth20@100ms\<close> feed.
  JSON decoding is serde's: the deserializer of \<open>Depth20\<close> is the parameter \<open>de\<close>, which is
  None where \<open>serde_json::from_str\<close> fails.
\<close>

definition HOST :: string where
  "HOST = ''stream.binance.com''"

definition PORT :: u16 where
  "PORT = 9443"

record depth20 =
  d20_last_update_id :: u64
  d20_bids :: "(string \<times> string) list"
  d20_asks :: "(string \<times> string) list"

definition binance_parse_levels :: "(string \<times> string) list \<Rightarrow> level list option" where
  "binance_parse_levels ls = collect_options (map parse_level ls)"

definition binance_connect_url :: "string \<Rightarrow> string" where
  "binance_connect_url pair =
     ''wss://'' @ HOST @ '':'' @ show_nat (unat PORT) @ ''/ws/'' @ to_lowercase pair @ ''@depth20@100ms''"

definition binance_subscribe_message :: "string \<Rightarrow> string option" where
  "binance_subscribe_message pair = None"

definition binance_parse :: "(string \<Rightarrow> depth20 option) \<Rightarrow> string \<Rightarrow> stamps \<Rightarrow> book option" where
  "binance_parse de text t =
     (case de text of
        None \<Rightarrow> None
      | Some raw \<Rightarrow>
          (case binance_parse_levels (d20_bids raw) of
             None \<Rightarrow> None
           | Some bs \<Rightarrow>
               (case binance_parse_levels (d20_asks raw) of
                  None \<Rightarrow> None
                | Some as \<Rightarrow>
                    Some \<lparr>bids = bs, asks = as, last_update_id = d20_last_update_id raw,
                          parse_started_at = fst t, parsed_at = snd t\<rparr>)))"

definition binance :: "(string \<Rightarrow> depth20 option) \<Rightarrow> unit exchange" where
  "binance de = \<lparr>ex_venue = Binance, ex_connect_url = binance_connect_url,
     ex_subscribe_message = binance_subscribe_message,
     ex_parse = (\<lambda>s raw t. Done (s, binance_parse de raw t))\<rparr>"

section \<open>Its contract\<close>

lemma binance_parse_Some:
  "binance_parse de text t = Some b \<longleftrightarrow>
     (\<exists>raw. de text = Some raw \<and> list_all2 level_of (d20_bids raw) (bids b)
        \<and> list_all2 level_of (d20_asks raw) (asks b) \<and> last_update_id b = d20_last_update_id raw
        \<and> parse_started_at b = fst t \<and> parsed_at b = snd t)"
  by (auto simp: binance_parse_def binance_parse_levels_def split: option.splits
      simp flip: collect_parse_level_Some)

interpretation binance: exchange_contract "binance de" "\<lambda>_. True" "()" for de
  by unfold_locales (auto simp: binance_def binance_parse_Some)

end
