(* ===== verification/Bitstamp_Feed.thy ===== *)
theory Bitstamp_Feed
  imports Exchange
begin

text \<open>
  \<open>src/exchange/bitstamp.rs\<close>: the subscribe message and the parser of the \<open>order_book\<close>
  channel. The deserializer of \<open>Envelope\<close> is the parameter \<open>de\<close>.
\<close>

record bitstamp_data =
  bd_bids :: "(string \<times> string) list"
  bd_asks :: "(string \<times> string) list"

record envelope =
  env_event :: string
  env_data :: "bitstamp_data option"

definition bitstamp_parse_levels :: "(string \<times> string) list \<Rightarrow> level list option" where
  "bitstamp_parse_levels ls = collect_options (map parse_level ls)"

definition bitstamp_connect_url :: "string \<Rightarrow> string" where
  "bitstamp_connect_url pair = ''wss://ws.bitstamp.net''"

definition bitstamp_subscribe_message :: "string \<Rightarrow> string option" where
  \<open>bitstamp_subscribe_message pair =
     Some (''{"event":"bts:subscribe","data":{"channel":"order_book_'' @ to_lowercase pair @ ''"}}'')\<close>

definition bitstamp_parse :: "(string \<Rightarrow> envelope option) \<Rightarrow> string \<Rightarrow> stamps \<Rightarrow> book option" where
  "bitstamp_parse de raw t =
     (case de raw of
        None \<Rightarrow> None
      | Some env \<Rightarrow>
          if env_event env = ''data'' then
            (case env_data env of
               None \<Rightarrow> None
             | Some data \<Rightarrow>
                 (case bitstamp_parse_levels (bd_bids data) of
                    None \<Rightarrow> None
                  | Some bs \<Rightarrow>
                      (case bitstamp_parse_levels (bd_asks data) of
                         None \<Rightarrow> None
                       | Some as \<Rightarrow>
                           Some \<lparr>bids = bs, asks = as, last_update_id = 0,
                                 parse_started_at = fst t, parsed_at = snd t\<rparr>)))
          else None)"

definition bitstamp :: "(string \<Rightarrow> envelope option) \<Rightarrow> unit exchange" where
  "bitstamp de = \<lparr>ex_venue = Bitstamp, ex_connect_url = bitstamp_connect_url,
     ex_subscribe_message = bitstamp_subscribe_message,
     ex_parse = (\<lambda>s raw t. Done (s, bitstamp_parse de raw t))\<rparr>"

section \<open>Its contract\<close>

lemma bitstamp_parse_Some:
  "bitstamp_parse de raw t = Some b \<longleftrightarrow>
     (\<exists>data. (\<exists>env. de raw = Some env \<and> env_event env = ''data'' \<and> env_data env = Some data)
        \<and> list_all2 level_of (bd_bids data) (bids b) \<and> list_all2 level_of (bd_asks data) (asks b)
        \<and> last_update_id b = 0 \<and> parse_started_at b = fst t \<and> parsed_at b = snd t)"
  by (auto simp: bitstamp_parse_def bitstamp_parse_levels_def split: option.splits
      simp flip: collect_parse_level_Some)

interpretation bitstamp: exchange_contract "bitstamp de" "\<lambda>_. True" "()" for de
  by unfold_locales (auto simp: bitstamp_def bitstamp_parse_Some)

end
