(* ===== verification/Kraken_Spec.thy ===== *)
theory Kraken_Spec
  imports Kraken_Book
begin

text \<open>
  What one side of the Kraken book promises: it is a finite map from prices to levels, kept
  best price first, cut at the subscribed depth. Prices are identified as the code's \<open>!=\<close>
  does, by their IEEE value. \<open>apply_update\<close> is proved to refine the map update, from which
  it follows that applying one message twice changes nothing.
\<close>

section \<open>The abstract side\<close>

type_synonym price_map = "int \<Rightarrow> kraken_level option"

definition kl_key :: "kraken_level \<Rightarrow> int" where
  "kl_key l = ieee_key (kl_price l)"

definition spec_put :: "price_map \<Rightarrow> kraken_level \<Rightarrow> price_map" where
  "spec_put m l = m(kl_key l := if feq (kl_qty l) (f64_zero False) then None else Some l)"

definition spec_update :: "price_map \<Rightarrow> kraken_level list \<Rightarrow> price_map" where
  "spec_update m ls = foldl spec_put m ls"

definition side_map :: "kraken_level list \<Rightarrow> price_map" where
  "side_map ls = map_of (map (\<lambda>l. (kl_key l, l)) ls)"

definition best_first :: "bool \<Rightarrow> kraken_level \<Rightarrow> int" where
  "best_first asc l = (if asc then kl_key l else - kl_key l)"

definition side_ok :: "bool \<Rightarrow> kraken_level list \<Rightarrow> bool" where
  "side_ok asc ls \<longleftrightarrow> (\<forall>l\<in>set ls. \<not> is_nan (kl_price l))
     \<and> sorted_wrt (<) (map (best_first asc) ls)"

lemma best_first_inject [simp]: "best_first asc k = best_first asc l \<longleftrightarrow> kl_key k = kl_key l"
  by (simp add: best_first_def)

lemma side_ok_distinct: "side_ok asc ls \<Longrightarrow> distinct (map kl_key ls)"
proof -
  assume "side_ok asc ls"
  then have "distinct (map (best_first asc) ls)" by (simp add: side_ok_def strict_sorted_iff)
  then show ?thesis by (simp add: distinct_map inj_on_def)
qed

lemma side_map_Some:
  assumes "side_ok asc ls"
  shows "side_map ls k = Some l \<longleftrightarrow> l \<in> set ls \<and> kl_key l = k"
proof -
  have "distinct (map fst (map (\<lambda>l. (kl_key l, l)) ls))"
    using side_ok_distinct [OF assms] by (simp add: comp_def)
  then show ?thesis unfolding side_map_def by (subst map_of_eq_Some_iff) auto
qed

text \<open>A map has one representation.\<close>

lemma side_ok_unique:
  assumes "side_ok asc xs" "side_ok asc ys" "set xs = set ys"
  shows "xs = ys"
proof -
  have ds: "distinct (map (best_first asc) xs)" "distinct (map (best_first asc) ys)"
    "sorted (map (best_first asc) xs)" "sorted (map (best_first asc) ys)"
    using assms by (simp_all add: side_ok_def strict_sorted_iff)
  then have "inj_on (best_first asc) (set xs \<union> set ys)" using assms(3) by (simp add: distinct_map)
  with ds assms(3) show ?thesis by (intro map_sorted_distinct_set_unique [of "best_first asc"]) auto
qed

lemma side_ok_take: "side_ok asc ls \<Longrightarrow> side_ok asc (take n ls)"
  by (auto simp: side_ok_def take_map [symmetric] sorted_wrt_take dest: in_set_takeD)

lemma side_ok_filter: "side_ok asc ls \<Longrightarrow> side_ok asc (filter P ls)"
  by (auto simp: side_ok_def sorted_wrt_map sorted_wrt_filter)

section \<open>Insertion and removal\<close>

lemma total_key_mono_ieee:
  "total_key x \<le> total_key y \<Longrightarrow> ieee_key x \<le> ieee_key y"
  by (auto simp: ieee_key_def total_key_eq split: if_splits)

lemma sort_side_ok:
  assumes "\<forall>l\<in>set ls. \<not> is_nan (kl_price l)" "distinct (map kl_key ls)"
  shows "side_ok asc (sort_by (price_order asc) ls)"
proof -
  let ?ys = "sort_key (order_key asc) ls"
  have "sorted_wrt (\<lambda>a b. order_key asc a \<le> order_key asc b) ?ys"
    using sorted_sort_key [of "order_key asc" ls] by (simp add: sorted_map)
  then have "sorted_wrt (\<lambda>a b. best_first asc a \<le> best_first asc b) ?ys"
    by (rule sorted_wrt_mono_rel [rotated])
      (auto simp: order_key_def best_first_def kl_key_def total_key_mono_ieee split: if_splits)
  then have "sorted (map (best_first asc) ?ys)" by (simp add: sorted_map)
  moreover have "distinct (map (best_first asc) ?ys)"
  proof -
    have "mset (map kl_key ?ys) = mset (map kl_key ls)" by simp
    then have "distinct (map kl_key ?ys)" using assms(2) mset_eq_imp_distinct_iff by metis
    then show ?thesis by (simp add: distinct_map inj_on_def)
  qed
  ultimately show ?thesis
    using assms(1) by (simp add: side_ok_def sort_by_price_order strict_sorted_iff)
qed

lemma feq_kl_key: "\<not> is_nan (kl_price a) \<Longrightarrow> \<not> is_nan (kl_price b) \<Longrightarrow>
  feq (kl_price a) (kl_price b) \<longleftrightarrow> kl_key a = kl_key b"
  by (simp add: feq_def kl_key_def)

lemma upsert_refines:
  assumes "side_ok asc ls" "\<not> is_nan (kl_price l)"
  shows "side_ok asc (upsert ls l asc)" "side_map (upsert ls l asc) = spec_put (side_map ls) l"
proof -
  have nan: "\<forall>e\<in>set ls. \<not> is_nan (kl_price e)" using assms(1) by (simp add: side_ok_def)
  let ?kept = "filter (\<lambda>e. \<not> feq (kl_price e) (kl_price l)) ls"
  have kept: "e \<in> set ?kept \<longleftrightarrow> e \<in> set ls \<and> kl_key e \<noteq> kl_key l" for e
    using nan assms(2) by (auto simp: feq_kl_key)
  have dist: "distinct (map kl_key ?kept)"
    using side_ok_distinct [OF side_ok_filter [OF assms(1)]] .
  have "kl_key l \<notin> kl_key ` set ?kept" by (auto simp only: kept)
  with dist have dist': "distinct (map kl_key (?kept @ [l]))"
    by (simp only: map_append distinct_append) simp
  have nan': "\<forall>e\<in>set ?kept. \<not> is_nan (kl_price e)" "\<forall>e\<in>set (?kept @ [l]). \<not> is_nan (kl_price e)"
    using nan assms(2) by (simp_all only: set_append set_filter) auto
  show ok: "side_ok asc (upsert ls l asc)"
    using sort_side_ok [OF nan'(1) dist] sort_side_ok [OF nan'(2) dist']
    unfolding upsert_def Let_def by simp
  have up: "e \<in> set (upsert ls l asc) \<longleftrightarrow>
      (e \<in> set ls \<and> kl_key e \<noteq> kl_key l) \<or> (\<not> feq (kl_qty l) (f64_zero False) \<and> e = l)" for e
    using kept [of e] unfolding set_upsert by simp
  show "side_map (upsert ls l asc) = spec_put (side_map ls) l"
  proof
    fix k
    have "side_map (upsert ls l asc) k = Some e \<longleftrightarrow> spec_put (side_map ls) l k = Some e" for e
      unfolding side_map_Some [OF ok] up spec_put_def
      by (cases "k = kl_key l") (auto simp: side_map_Some [OF assms(1)])
    then show "side_map (upsert ls l asc) k = spec_put (side_map ls) l k"
      by (metis not_Some_eq)
  qed
qed

definition no_nan :: "wire_level list \<Rightarrow> bool" where
  "no_nan ws \<longleftrightarrow> (\<forall>w\<in>set ws. case to_level w of None \<Rightarrow> True | Some l \<Rightarrow> \<not> is_nan (kl_price l))"

lemma apply_levels_refines:
  assumes "side_ok asc ls" "no_nan ws" "apply_levels asc ls ws = (ls', True)"
  shows "side_ok asc ls' \<and> side_map ls' = spec_update (side_map ls) (List.map_filter to_level ws)"
  using assms
proof (induction asc ls ws rule: apply_levels.induct)
  case (1 asc ls)
  then show ?case by (simp add: spec_update_def)
next
  case (2 asc ls w ws)
  from "2.prems"(3) obtain l where l: "to_level w = Some l" by (cases "to_level w") auto
  with "2.prems"(2) have nn: "\<not> is_nan (kl_price l)" "no_nan ws" by (simp_all add: no_nan_def)
  from 2 l nn have "side_ok asc ls' \<and>
      side_map ls' = spec_update (side_map (upsert ls l asc)) (List.map_filter to_level ws)"
    using upsert_refines(1) by simp
  then show ?case using l upsert_refines(2) [OF "2.prems"(1) nn(1)] by (simp add: spec_update_def)
qed

section \<open>Repeating an update\<close>

lemma spec_update_local:
  "(\<forall>m n. spec_update m ls k = spec_update n ls k) \<or> (\<forall>m. spec_update m ls k = m k)"
proof (induction ls rule: rev_induct)
  case (snoc l ls)
  then show ?case by (auto simp: spec_update_def spec_put_def)
qed (simp add: spec_update_def)

text \<open>
  Updating the levels that survived the cut again yields a side between those levels and the
  whole updated side, so the cut gives the same levels.
\<close>

lemma cut_between:
  assumes full: "side_ok asc full" and again: "side_ok asc again"
    and lo: "set (take n full) \<subseteq> set again" and hi: "set again \<subseteq> set full"
  shows "take n again = take n full"
proof -
  have "again = filter (\<lambda>l. l \<in> set again) full"
    using hi by (intro side_ok_unique [OF again side_ok_filter [OF full]]) auto
  also have "\<dots> = filter (\<lambda>l. l \<in> set again) (take n full @ drop n full)" by simp
  also have "\<dots> = take n full @ filter (\<lambda>l. l \<in> set again) (drop n full)"
    using lo by (subst filter_append, subst filter_True) auto
  finally have eq: "again = take n full @ filter (\<lambda>l. l \<in> set again) (drop n full)" .
  show ?thesis by (subst eq) (cases "n \<le> length full"; simp)
qed

lemma update_again:
  assumes "side_ok asc full" "side_map full = spec_update m us"
    and "side_ok asc again" "side_map again = spec_update (side_map (take n full)) us"
  shows "take n again = take n full"
proof (rule cut_between [OF assms(1,3)])
  note cut = side_ok_take [OF assms(1), of n]
  have upd: "side_map again k = side_map full k \<or> side_map again k = side_map (take n full) k" for k
    unfolding assms(2,4) using spec_update_local [of us k] by metis
  have sub: "side_map full k = Some l" if "side_map (take n full) k = Some l" for k l
    using that unfolding side_map_Some [OF cut] side_map_Some [OF assms(1)] by (auto dest: in_set_takeD)
  show "set (take n full) \<subseteq> set again"
  proof
    fix l assume "l \<in> set (take n full)"
    then have "side_map (take n full) (kl_key l) = Some l" by (simp add: side_map_Some [OF cut])
    then have "side_map again (kl_key l) = Some l" using upd [of "kl_key l"] sub by auto
    then show "l \<in> set again" by (simp add: side_map_Some [OF assms(3)])
  qed
  show "set again \<subseteq> set full"
  proof
    fix l assume "l \<in> set again"
    then have "side_map again (kl_key l) = Some l" by (simp add: side_map_Some [OF assms(3)])
    then have "side_map full (kl_key l) = Some l" using upd [of "kl_key l"] sub by metis
    then show "l \<in> set full" by (simp add: side_map_Some [OF assms(1)])
  qed
qed

lemma applied_sides:
  assumes "apply_update b data = (b', Some ())"
  obtains bs as where "apply_levels False (kb_bids b) (dt_bids data) = (bs, True)"
    "apply_levels True (kb_asks b) (dt_asks data) = (as, True)"
    "b' = b\<lparr>kb_bids := take DEPTH bs, kb_asks := take DEPTH as\<rparr>"
  using assms by (cases rule: apply_update_cases) auto

lemma apply_levels_ok: "apply_levels asc ls ws = (ls', True) \<Longrightarrow> \<exists>k. apply_levels asc ks ws = (k, True)"
  by (induction asc ls ws arbitrary: ks rule: apply_levels.induct) (auto split: option.splits)

lemma apply_levels_again:
  assumes "side_ok asc ls" "no_nan ws" "apply_levels asc ls ws = (full, True)"
    "apply_levels asc (take n full) ws = (again, True)"
  shows "take n again = take n full"
proof -
  note full = apply_levels_refines [OF assms(1-3)]
  then have "side_ok asc (take n full)" by (simp add: side_ok_take)
  from apply_levels_refines [OF this assms(2,4)] full show ?thesis by (metis update_again)
qed

section \<open>Properties\<close>

definition sample_levels :: "kraken_level list" where
  "sample_levels = [\<lparr>kl_price = 0x4024000000000000, kl_price_raw = ''10'',
                     kl_qty = 0x3ff0000000000000, kl_qty_raw = ''1''\<rparr>]"

definition sample_kraken_book :: kraken_book where
  "sample_kraken_book = \<lparr>kb_bids = sample_levels, kb_asks = []\<rparr>"

definition sample_changes :: book_data where
  "sample_changes = \<lparr>dt_bids = [\<lparr>wl_price = ''10.0'', wl_qty = ''0''\<rparr>, \<lparr>wl_price = ''9'', wl_qty = ''3''\<rparr>],
     dt_asks = [\<lparr>wl_price = ''11'', wl_qty = ''2''\<rparr>], dt_checksum = 0\<rparr>"

text \<open>
  C11. An applied update is the map update of the specification: on each side, the new levels
  are the ten best of the old levels with every changed price put or (at quantity zero)
  removed, in order, one level for each price.
\<close>

theorem kraken_update_refines_map:
  assumes "apply_update b data = (b', Some ())"
    and "side_ok False (kb_bids b)" "side_ok True (kb_asks b)"
    and "no_nan (dt_bids data)" "no_nan (dt_asks data)"
  shows "\<exists>all_bids all_asks.
    side_ok False all_bids \<and> kb_bids b' = take DEPTH all_bids
    \<and> side_map all_bids = spec_update (side_map (kb_bids b)) (List.map_filter to_level (dt_bids data))
    \<and> side_ok True all_asks \<and> kb_asks b' = take DEPTH all_asks
    \<and> side_map all_asks = spec_update (side_map (kb_asks b)) (List.map_filter to_level (dt_asks data))"
proof -
  obtain bs as where "apply_levels False (kb_bids b) (dt_bids data) = (bs, True)"
    "apply_levels True (kb_asks b) (dt_asks data) = (as, True)"
    "b' = b\<lparr>kb_bids := take DEPTH bs, kb_asks := take DEPTH as\<rparr>"
    using assms(1) by (rule applied_sides)
  with apply_levels_refines [OF assms(2,4)] apply_levels_refines [OF assms(3,5)]
  show ?thesis by (intro exI [of _ bs] exI [of _ as]) simp
qed

theorem kraken_update_refines_map_witness:
  "\<exists>b' all_bids. apply_update sample_kraken_book sample_changes = (b', Some ())
     \<and> kb_bids b' = take DEPTH all_bids
     \<and> side_map all_bids = spec_update (side_map sample_levels)
         (List.map_filter to_level (dt_bids sample_changes))"
proof -
  let ?b' = "fst (apply_update sample_kraken_book sample_changes)"
  have a: "apply_update sample_kraken_book sample_changes = (?b', Some ())" by code_simp
  have s: "side_ok False (kb_bids sample_kraken_book)" "side_ok True (kb_asks sample_kraken_book)"
    "no_nan (dt_bids sample_changes)" "no_nan (dt_asks sample_changes)" by code_simp+
  have "kb_bids sample_kraken_book = sample_levels" by (simp add: sample_kraken_book_def)
  with kraken_update_refines_map [OF a s] a show ?thesis by metis
qed

text \<open>
  C12. Applying the same update again changes nothing, although levels were cut at depth ten
  in between: the doubled delta of a repeated message is harmless.
\<close>

theorem kraken_update_idempotent:
  assumes "apply_update b data = (b', Some ())"
    and "side_ok False (kb_bids b)" "side_ok True (kb_asks b)"
    and "no_nan (dt_bids data)" "no_nan (dt_asks data)"
  shows "apply_update b' data = (b', Some ())"
proof -
  obtain bs as where bs: "apply_levels False (kb_bids b) (dt_bids data) = (bs, True)"
    and as: "apply_levels True (kb_asks b) (dt_asks data) = (as, True)"
    and b': "b' = b\<lparr>kb_bids := take DEPTH bs, kb_asks := take DEPTH as\<rparr>"
    using assms(1) by (rule applied_sides)
  obtain bs' as' where again: "apply_levels False (take DEPTH bs) (dt_bids data) = (bs', True)"
    "apply_levels True (take DEPTH as) (dt_asks data) = (as', True)"
    using apply_levels_ok [OF bs] apply_levels_ok [OF as] by blast
  have "take DEPTH bs' = take DEPTH bs" "take DEPTH as' = take DEPTH as"
    using apply_levels_again [OF assms(2,4) bs again(1)] apply_levels_again [OF assms(3,5) as again(2)]
    by simp_all
  with again show ?thesis by (simp add: apply_update_def b')
qed

theorem kraken_update_idempotent_witness:
  "apply_update (fst (apply_update sample_kraken_book sample_changes)) sample_changes =
     (fst (apply_update sample_kraken_book sample_changes), Some ())"
proof -
  have a: "apply_update sample_kraken_book sample_changes =
      (fst (apply_update sample_kraken_book sample_changes), Some ())" by code_simp
  have s: "side_ok False (kb_bids sample_kraken_book)" "side_ok True (kb_asks sample_kraken_book)"
    "no_nan (dt_bids sample_changes)" "no_nan (dt_asks sample_changes)" by code_simp+
  show ?thesis by (rule kraken_update_idempotent [OF a s])
qed

end
