(* ===== verification/Kraken_Feed.thy ===== *)
theory Kraken_Feed
  imports Kraken_Spec
begin

text \<open>
  \<open>src/exchange/kraken.rs\<close>, the message half: the symbol conversion, the subscription, and
  \<open>parse\<close>, which dispatches on the channel and keeps the held book. The mutex has one owner,
  so the state is \<open>kraken_book option\<close>. The deserializers of \<open>Peek\<close> and \<open>BookMessage\<close> and
  \<open>crc32fast::hash\<close> are the fields of \<open>kraken_env\<close>. A subscribe acknowledgement is only
  logged, so its decoding is left out.
\<close>

section \<open>Symbols and subscription\<close>

definition QUOTE_SUFFIXES :: "string list" where
  "QUOTE_SUFFIXES = [''usdt'', ''btc'', ''usd'', ''eur'']"

fun first_suffix :: "string list \<Rightarrow> string \<Rightarrow> string option" where
  "first_suffix [] lower = None"
| "first_suffix (q # qs) lower =
     (case strip_suffix q lower of
        None \<Rightarrow> first_suffix qs lower
      | Some base \<Rightarrow>
          if base \<noteq> [] then Some (to_uppercase base @ ''/'' @ to_uppercase q)
          else first_suffix qs lower)"

definition to_kraken_symbol :: "string \<Rightarrow> string option" where
  "to_kraken_symbol pair = first_suffix QUOTE_SUFFIXES (to_lowercase pair)"

definition kraken_connect_url :: "string \<Rightarrow> string" where
  "kraken_connect_url pair = ''wss://ws.kraken.com/v2''"

definition kraken_subscribe_message :: "string \<Rightarrow> string option" where
  \<open>kraken_subscribe_message pair =
     map_option (\<lambda>symbol. ''{"method":"subscribe","params":{"channel":"book","symbol":["''
       @ symbol @ ''"],"depth":10}}'') (to_kraken_symbol pair)\<close>

section \<open>Messages\<close>

record book_message =
  bm_kind :: string
  bm_data :: "book_data list"

record peek_message =
  pk_channel :: "string option"
  pk_method :: "string option"

record kraken_env =
  ke_peek :: "string \<Rightarrow> peek_message option"
  ke_message :: "string \<Rightarrow> book_message option"
  ke_crc32 :: "string \<Rightarrow> u32"

type_synonym kraken_state = "kraken_book option"

definition kraken_new :: kraken_state where
  "kraken_new = None"

definition kraken_snapshot ::
    "kraken_env \<Rightarrow> kraken_state \<Rightarrow> book_data \<Rightarrow> stamps \<Rightarrow> (kraken_state \<times> book option) outcome" where
  "kraken_snapshot env held data t =
     (case from_snapshot data of
        None \<Rightarrow> Done (held, None)
      | Some book \<Rightarrow>
          if compute_checksum (ke_crc32 env) book \<noteq> dt_checksum data then Done (None, None)
          else bind_outcome (to_model_book book t) (\<lambda>model. Done (Some book, Some model)))"

definition kraken_update ::
    "kraken_env \<Rightarrow> kraken_state \<Rightarrow> book_data \<Rightarrow> stamps \<Rightarrow> (kraken_state \<times> book option) outcome" where
  "kraken_update env held data t =
     (case held of
        None \<Rightarrow> Done (held, None)
      | Some book \<Rightarrow>
          (case apply_update book data of
             (book', None) \<Rightarrow> Done (Some book', None)
           | (book', Some _) \<Rightarrow>
               if compute_checksum (ke_crc32 env) book' \<noteq> dt_checksum data then Done (None, None)
               else bind_outcome (to_model_book book' t) (\<lambda>model. Done (Some book', Some model))))"

definition parse_book_message ::
    "kraken_env \<Rightarrow> kraken_state \<Rightarrow> string \<Rightarrow> stamps \<Rightarrow> (kraken_state \<times> book option) outcome" where
  "parse_book_message env held raw t =
     (case ke_message env raw of
        None \<Rightarrow> Done (held, None)
      | Some msg \<Rightarrow>
          (case bm_data msg of
             [] \<Rightarrow> Done (held, None)
           | data # _ \<Rightarrow>
               if bm_kind msg = ''snapshot'' then kraken_snapshot env held data t
               else if bm_kind msg = ''update'' then kraken_update env held data t
               else Done (held, None)))"

definition kraken_parse ::
    "kraken_env \<Rightarrow> kraken_state \<Rightarrow> string \<Rightarrow> stamps \<Rightarrow> (kraken_state \<times> book option) outcome" where
  "kraken_parse env held raw t =
     (case ke_peek env raw of
        None \<Rightarrow> Done (held, None)
      | Some peek \<Rightarrow>
          (case pk_channel peek of
             Some channel \<Rightarrow>
               if channel = ''book'' then parse_book_message env held raw t else Done (held, None)
           | None \<Rightarrow> Done (held, None)))"

definition kraken :: "kraken_env \<Rightarrow> kraken_state exchange" where
  "kraken env = \<lparr>ex_venue = Kraken, ex_connect_url = kraken_connect_url,
     ex_subscribe_message = kraken_subscribe_message, ex_parse = kraken_parse env\<rparr>"

section \<open>What one message does\<close>

definition kraken_inv :: "kraken_state \<Rightarrow> bool" where
  "kraken_inv held \<longleftrightarrow> (case held of None \<Rightarrow> True | Some b \<Rightarrow> book_inv b)"

text \<open>The book message a text carries, if it is one that \<open>parse\<close> dispatches.\<close>

definition book_payload :: "kraken_env \<Rightarrow> string \<Rightarrow> (string \<times> book_data) option" where
  "book_payload env raw =
     (case ke_peek env raw of
        None \<Rightarrow> None
      | Some peek \<Rightarrow>
          if pk_channel peek = Some ''book'' then
            (case ke_message env raw of
               None \<Rightarrow> None
             | Some msg \<Rightarrow> (case bm_data msg of [] \<Rightarrow> None | d # _ \<Rightarrow> Some (bm_kind msg, d)))
          else None)"

lemma kraken_parse_payload:
  "kraken_parse env held raw t =
     (case book_payload env raw of
        None \<Rightarrow> Done (held, None)
      | Some (kind, data) \<Rightarrow>
          if kind = ''snapshot'' then kraken_snapshot env held data t
          else if kind = ''update'' then kraken_update env held data t
          else Done (held, None))"
  by (simp add: kraken_parse_def book_payload_def parse_book_message_def
      split: option.splits list.splits)

lemma book_inv_parses: "book_inv b \<Longrightarrow> book_parses b"
  by (simp add: book_inv_def)

text \<open>What is published is the held book, and it matched the checksum.\<close>

definition published :: "kraken_env \<Rightarrow> kraken_state \<Rightarrow> book_data \<Rightarrow> stamps \<Rightarrow> book \<Rightarrow> bool" where
  "published env held data t b \<longleftrightarrow> (\<exists>kb. held = Some kb \<and> book_inv kb
     \<and> compute_checksum (ke_crc32 env) kb = dt_checksum data
     \<and> length (kb_bids kb) \<le> DEPTH \<and> length (kb_asks kb) \<le> DEPTH
     \<and> b = \<lparr>bids = map pair_of (kb_bids kb), asks = map pair_of (kb_asks kb), last_update_id = 0,
            parse_started_at = fst t, parsed_at = snd t\<rparr>)"

definition step_ok :: "kraken_env \<Rightarrow> book_data \<Rightarrow> stamps \<Rightarrow> (kraken_state \<times> book option) outcome \<Rightarrow> bool" where
  "step_ok env data t out \<longleftrightarrow> (\<exists>held r. out = Done (held, r) \<and> kraken_inv held
     \<and> (\<forall>b. r = Some b \<longrightarrow> published env held data t b))"

lemma kraken_snapshot_ok: "kraken_inv held \<Longrightarrow> step_ok env data t (kraken_snapshot env held data t)"
  using from_snapshot_inv [of data]
  by (auto simp: kraken_snapshot_def step_ok_def kraken_inv_def published_def to_model_book_parses
      book_inv_parses split: option.splits)

lemma kraken_update_ok:
  assumes "kraken_inv held"
  shows "step_ok env data t (kraken_update env held data t)"
proof (cases held)
  case (Some kb)
  obtain kb' r where up: "apply_update kb data = (kb', r)" by fastforce
  have inv: "book_inv kb" using assms Some by (simp add: kraken_inv_def)
  have inv': "book_inv kb'" by (rule apply_update_inv(1) [OF inv up])
  show ?thesis
  proof (cases r)
    case None
    then have "kraken_update env held data t = Done (Some kb', None)"
      using up Some by (simp add: kraken_update_def)
    then show ?thesis using inv' by (simp add: step_ok_def kraken_inv_def)
  next
    case r: (Some u)
    then have r': "r = Some ()" by simp
    note len = apply_update_inv(2) [OF inv up r']
    have out: "kraken_update env held data t =
        (if compute_checksum (ke_crc32 env) kb' \<noteq> dt_checksum data then Done (None, None)
         else bind_outcome (to_model_book kb' t) (\<lambda>model. Done (Some kb', Some model)))"
      using up Some r' by (simp add: kraken_update_def)
    show ?thesis
      unfolding out to_model_book_parses [OF book_inv_parses [OF inv']]
      using inv' len by (simp add: step_ok_def kraken_inv_def published_def)
  qed
qed (simp add: kraken_update_def step_ok_def kraken_inv_def)

lemma kraken_parse_ok:
  assumes "kraken_inv held"
  shows "\<exists>held' r. kraken_parse env held raw t = Done (held', r) \<and> kraken_inv held'
    \<and> (\<forall>b. r = Some b \<longrightarrow> (\<exists>kind data. book_payload env raw = Some (kind, data)
          \<and> kind \<in> {''snapshot'', ''update''} \<and> published env held' data t b))"
proof (cases "book_payload env raw")
  case (Some kd)
  then obtain kind data where kd: "book_payload env raw = Some (kind, data)" by (cases kd) auto
  show ?thesis
    using kraken_snapshot_ok [OF assms, of env data t] kraken_update_ok [OF assms, of env data t] assms
    by (auto simp: kraken_parse_payload kd step_ok_def)
qed (simp add: kraken_parse_payload assms)

text \<open>Without a held book only a snapshot changes anything.\<close>

definition is_snapshot :: "kraken_env \<Rightarrow> string \<Rightarrow> bool" where
  "is_snapshot env raw \<longleftrightarrow> (\<exists>data. book_payload env raw = Some (''snapshot'', data))"

lemma kraken_parse_desynced:
  "\<not> is_snapshot env raw \<Longrightarrow> kraken_parse env None raw t = Done (None, None)"
  by (auto simp: kraken_parse_payload is_snapshot_def kraken_update_def split: option.splits)

lemma parse_all_desynced:
  "\<forall>(raw, t)\<in>set ms. \<not> is_snapshot env raw \<Longrightarrow>
   parse_all (kraken env) None ms = Done (None, replicate (length ms) None)"
  by (induction ms) (auto simp: kraken_def kraken_parse_desynced)

text \<open>The symbol is the lowercased pair with a slash put in.\<close>

lemma first_suffix_Some:
  "first_suffix qs lower = Some s \<Longrightarrow>
   \<exists>base q. q \<in> set qs \<and> base \<noteq> [] \<and> lower = base @ q \<and> s = to_uppercase base @ ''/'' @ to_uppercase q"
  by (induction qs lower rule: first_suffix.induct)
    (auto simp: strip_suffix_Some split: option.splits if_splits)

lemma first_suffix_None:
  "first_suffix qs lower = None \<longleftrightarrow> (\<forall>q\<in>set qs. \<forall>base. base \<noteq> [] \<longrightarrow> lower \<noteq> base @ q)"
proof (induction qs)
  case (Cons q qs)
  show ?case
  proof (cases "strip_suffix q lower")
    case None
    then have "\<forall>base. lower \<noteq> base @ q" by (metis option.distinct(1) strip_suffix_append)
    with None Cons show ?thesis by simp
  next
    case (Some b)
    then have "lower = base @ q \<longleftrightarrow> base = b" for base by (auto simp: strip_suffix_Some)
    with Some Cons show ?thesis by simp
  qed
qed simp

section \<open>Its contract\<close>

interpretation kraken: exchange_contract "kraken env" kraken_inv kraken_new for env
proof unfold_locales
  fix s raw t s' r b
  show "kraken_inv kraken_new" by (simp add: kraken_inv_def kraken_new_def)
  show "kraken_inv s \<Longrightarrow> ex_parse (kraken env) s raw t \<noteq> Panic"
    using kraken_parse_ok [of s env raw t] by (auto simp: kraken_def)
  show "kraken_inv s \<Longrightarrow> ex_parse (kraken env) s raw t = Done (s', r) \<Longrightarrow> kraken_inv s'"
    using kraken_parse_ok [of s env raw t] by (auto simp: kraken_def)
  have stamped: "to_model_book kb t = Done b \<Longrightarrow> parse_started_at b = fst t \<and> parsed_at b = snd t"
    for kb b by (auto simp: to_model_book_def elim!: bind_outcome_DoneE)
  show "ex_parse (kraken env) s raw t = Done (s', Some b) \<Longrightarrow>
      parse_started_at b = fst t \<and> parsed_at b = snd t"
    using stamped
    by (auto simp: kraken_def kraken_parse_payload kraken_snapshot_def kraken_update_def
        elim!: bind_outcome_DoneE split: option.splits if_splits prod.splits)
qed

section \<open>Resynchronisation\<close>

text \<open>What a snapshot whose levels parse does depends on nothing held before it.\<close>

lemma kraken_parse_snapshot:
  assumes "book_payload env raw = Some (''snapshot'', data)" "from_snapshot data = Some kb"
  shows "kraken_parse env held raw t = kraken_parse env kraken_new raw t"
  using assms by (simp add: kraken_parse_payload kraken_snapshot_def)

text \<open>The book a message would hold: that of the snapshot, or the updated one.\<close>

definition next_book :: "kraken_state \<Rightarrow> string \<times> book_data \<Rightarrow> kraken_book option" where
  "next_book held m =
     (if fst m = ''snapshot'' then from_snapshot (snd m)
      else if fst m = ''update'' then
        (case held of None \<Rightarrow> None
         | Some kb \<Rightarrow> (case apply_update kb (snd m) of (kb', None) \<Rightarrow> None | (kb', Some _) \<Rightarrow> Some kb'))
      else None)"

lemma kraken_parse_mismatch:
  assumes "book_payload env raw = Some m" "next_book held m = Some kb"
    and "compute_checksum (ke_crc32 env) kb \<noteq> dt_checksum (snd m)"
  shows "kraken_parse env held raw t = Done (None, None)"
  using assms by (cases m) (auto simp: next_book_def kraken_parse_payload kraken_snapshot_def kraken_update_def
      split: if_splits option.splits prod.splits)

text \<open>An update stops at its first level that does not parse.\<close>

lemma apply_levels_stops:
  "to_level bad = None \<Longrightarrow> map to_level good = map Some ls \<Longrightarrow>
     apply_levels asc bs (good @ bad # rest) = (foldl (\<lambda>bs l. upsert bs l asc) bs ls, False)"
proof (induction good arbitrary: bs ls)
  case (Cons g good)
  then obtain k ks where "ls = k # ks" "to_level g = Some k" "map to_level good = map Some ks"
    by (cases ls) auto
  with Cons show ?case by simp
qed simp

lemma apply_levels_all:
  "map to_level good = map Some ls \<Longrightarrow> apply_levels asc bs good = (foldl (\<lambda>bs l. upsert bs l asc) bs ls, True)"
proof (induction good arbitrary: bs ls)
  case (Cons g good)
  then obtain k ks where "ls = k # ks" "to_level g = Some k" "map to_level good = map Some ks"
    by (cases ls) auto
  with Cons show ?case by simp
qed simp

section \<open>Properties\<close>

text \<open>A connection's messages: a snapshot, an update of it, and a text that is neither.\<close>

definition sample_snapshot :: book_data where
  "sample_snapshot = \<lparr>
     dt_bids = [\<lparr>wl_price = ''0.031348'', wl_qty = ''0.03740000''\<rparr>,
                \<lparr>wl_price = ''0.031347'', wl_qty = ''2.87288049''\<rparr>],
     dt_asks = [\<lparr>wl_price = ''0.031357'', wl_qty = ''0.03740000''\<rparr>], dt_checksum = 38\<rparr>"

definition sample_update :: book_data where
  "sample_update = \<lparr>
     dt_bids = [\<lparr>wl_price = ''0.031347'', wl_qty = ''0.00000000''\<rparr>,
                \<lparr>wl_price = ''0.031329'', wl_qty = ''19.07893401''\<rparr>],
     dt_asks = [], dt_checksum = 39\<rparr>"

definition sample_env :: kraken_env where
  "sample_env = \<lparr>
     ke_peek = (\<lambda>raw. Some \<lparr>pk_channel = Some ''book'', pk_method = None\<rparr>),
     ke_message = (\<lambda>raw. if raw = ''s'' then Some \<lparr>bm_kind = ''snapshot'', bm_data = [sample_snapshot]\<rparr>
                         else if raw = ''u'' then Some \<lparr>bm_kind = ''update'', bm_data = [sample_update]\<rparr>
                         else None),
     ke_crc32 = (\<lambda>s. word_of_nat (length s))\<rparr>"

text \<open>
  C10. A published Kraken book is the held book: it came from a snapshot or update message
  whose checksum it matches, is sorted best price first on both sides with at most ten
  levels each, and every level is the parse of the digits the checksum was computed over.
\<close>

theorem kraken_publishes_checked_books:
  assumes "kraken_inv held" "kraken_parse env held raw t = Done (held', Some b)"
  shows "\<exists>kind data kb. book_payload env raw = Some (kind, data)
    \<and> kind \<in> {''snapshot'', ''update''} \<and> held' = Some kb
    \<and> compute_checksum (ke_crc32 env) kb = dt_checksum data
    \<and> bids b = map pair_of (kb_bids kb) \<and> asks b = map pair_of (kb_asks kb)
    \<and> book_parses kb \<and> side_sorted False (kb_bids kb) \<and> side_sorted True (kb_asks kb)
    \<and> length (bids b) \<le> DEPTH \<and> length (asks b) \<le> DEPTH"
  using kraken_parse_ok [OF assms(1), of env raw t] assms(2)
  by (auto simp: published_def book_inv_def)

theorem kraken_publishes_checked_books_witness:
  "\<exists>kb. compute_checksum (ke_crc32 sample_env) kb = 38 \<and> length (kb_bids kb) = 2"
proof -
  have "kraken_parse sample_env None ''s'' (1, 2) =
      Done (from_snapshot sample_snapshot, Some (the (map_option (\<lambda>kb. \<lparr>bids = map pair_of (kb_bids kb),
        asks = map pair_of (kb_asks kb), last_update_id = 0, parse_started_at = 1, parsed_at = 2\<rparr>)
        (from_snapshot sample_snapshot))))" by code_simp
  moreover have "kraken_inv None" by (simp add: kraken_inv_def)
  ultimately obtain kind data kb where "book_payload sample_env ''s'' = Some (kind, data)"
    "from_snapshot sample_snapshot = Some kb"
    "compute_checksum (ke_crc32 sample_env) kb = dt_checksum data"
    using kraken_publishes_checked_books by blast
  moreover have "book_payload sample_env ''s'' = Some (''snapshot'', sample_snapshot)"
    "dt_checksum sample_snapshot = 38"
    "map_option (\<lambda>kb. length (kb_bids kb)) (from_snapshot sample_snapshot) = Some 2" by code_simp+
  ultimately show ?thesis by auto
qed

text \<open>
  C13. A checksum mismatch drops the held book, on a snapshot as on an update, and from then on
  nothing is published until a snapshot arrives, however many other messages come first.
\<close>

theorem kraken_mismatch_silences:
  assumes "book_payload env raw = Some m" "next_book held m = Some kb"
    and "compute_checksum (ke_crc32 env) kb \<noteq> dt_checksum (snd m)"
    and "\<forall>(raw', t')\<in>set ms. \<not> is_snapshot env raw'"
  shows "parse_all (kraken env) held ((raw, t) # ms) =
    Done (None, None # replicate (length ms) None)"
  using kraken_parse_mismatch [OF assms(1-3), of t] parse_all_desynced [OF assms(4)] by (simp add: kraken_def)

text \<open>Here the snapshot's checksum is wrong: another length is expected.\<close>

definition corrupt_env :: kraken_env where
  "corrupt_env = sample_env\<lparr>ke_crc32 := \<lambda>s. word_of_nat (length s + 1)\<rparr>"

theorem kraken_mismatch_silences_witness:
  "parse_all (kraken sample_env) (Some \<lparr>kb_bids = [], kb_asks = []\<rparr>) [(''u'', (1, 2)), (''x'', (3, 4))] =
     Done (None, [None, None]) \<and>
   parse_all (kraken corrupt_env) (Some \<lparr>kb_bids = [], kb_asks = []\<rparr>) [(''s'', (1, 2)), (''u'', (3, 4))] =
     Done (None, [None, None])"
proof
  let ?kb = "\<lparr>kb_bids = [], kb_asks = []\<rparr>"
  have p: "book_payload sample_env ''u'' = Some (''update'', sample_update)"
    and n: "next_book (Some ?kb) (''update'', sample_update) = Some (fst (apply_update ?kb sample_update))"
    and c: "compute_checksum (ke_crc32 sample_env) (fst (apply_update ?kb sample_update))
      \<noteq> dt_checksum (snd (''update'', sample_update))" by code_simp+
  have "book_payload sample_env ''x'' = None" by code_simp
  then have s: "\<forall>(raw', t')\<in>set [(''x'', (3 :: nat, 4 :: nat))]. \<not> is_snapshot sample_env raw'"
    by (simp add: is_snapshot_def)
  show "parse_all (kraken sample_env) (Some ?kb) [(''u'', (1, 2)), (''x'', (3, 4))] = Done (None, [None, None])"
    using kraken_mismatch_silences [OF p n c s] by simp
  have p: "book_payload corrupt_env ''s'' = Some (''snapshot'', sample_snapshot)"
    and n: "next_book (Some ?kb) (''snapshot'', sample_snapshot) = Some (the (from_snapshot sample_snapshot))"
    and c: "compute_checksum (ke_crc32 corrupt_env) (the (from_snapshot sample_snapshot))
      \<noteq> dt_checksum (snd (''snapshot'', sample_snapshot))" by code_simp+
  have "book_payload corrupt_env ''u'' = Some (''update'', sample_update)" by code_simp
  then have s: "\<forall>(raw', t')\<in>set [(''u'', (3 :: nat, 4 :: nat))]. \<not> is_snapshot corrupt_env raw'"
    by (simp add: is_snapshot_def)
  show "parse_all (kraken corrupt_env) (Some ?kb) [(''s'', (1, 2)), (''u'', (3, 4))] = Done (None, [None, None])"
    using kraken_mismatch_silences [OF p n c s] by simp
qed

text \<open>
  C14. A snapshot whose levels parse resynchronises the venue: whatever the connections before
  it brought and left behind, from the snapshot on the feed publishes and holds what it would
  had it started there.
\<close>

theorem kraken_snapshot_resynchronises:
  assumes "book_payload env raw = Some (''snapshot'', data)" "from_snapshot data = Some kb"
    and "kraken_inv held"
  shows "\<exists>before held' rs. length before = length ms
    \<and> parse_all (kraken env) kraken_new ((raw, t) # ms') = Done (held', rs)
    \<and> parse_all (kraken env) held (ms @ (raw, t) # ms') = Done (held', before @ rs)"
proof -
  obtain h before where before: "parse_all (kraken env) held ms = Done (h, before)" "length before = length ms"
    using kraken.parse_all_returns [OF assms(3)] by blast
  obtain held' rs where rs: "parse_all (kraken env) kraken_new ((raw, t) # ms') = Done (held', rs)"
    using kraken.parse_all_init by blast
  moreover have "parse_all (kraken env) h ((raw, t) # ms') = parse_all (kraken env) kraken_new ((raw, t) # ms')"
    using kraken_parse_snapshot [OF assms(1,2), of h t] by (simp add: kraken_def)
  ultimately show ?thesis using before by (auto simp only: parse_all_append bind_outcome.simps prod.case)
qed

theorem kraken_snapshot_resynchronises_witness:
  "\<exists>before held' rs. length before = (1 :: nat)
     \<and> parse_all (kraken sample_env) kraken_new [(''s'', (5, 6)), (''u'', (7, 8))] = Done (held', rs)
     \<and> parse_all (kraken sample_env) (Some \<lparr>kb_bids = [], kb_asks = []\<rparr>)
         [(''u'', (1, 2)), (''s'', (5, 6)), (''u'', (7, 8))] = Done (held', before @ rs)"
proof -
  have p: "book_payload sample_env ''s'' = Some (''snapshot'', sample_snapshot)"
    and f: "from_snapshot sample_snapshot = Some (the (from_snapshot sample_snapshot))" by code_simp+
  have "kraken_inv (Some \<lparr>kb_bids = [], kb_asks = []\<rparr>)"
    by (simp add: kraken_inv_def book_inv_def book_parses_def side_sorted_def)
  from kraken_snapshot_resynchronises [OF p f this, of "[(''u'', (1, 2))]" "(5, 6)" "[(''u'', (7, 8))]"]
  show ?thesis by simp
qed

text \<open>
  C15. An update message with a level that does not parse is not published, but it is not
  undone either, on whichever side the bad level is: the held book keeps the levels before it
  applied, bids first, unchecked and not cut to the depth.
\<close>

theorem kraken_update_half_applied:
  assumes "book_payload env raw = Some (''update'', data)" "to_level bad = None"
    and "map to_level good = map Some ls"
  shows "(dt_bids data = good @ bad # rest \<longrightarrow> kraken_parse env (Some kb) raw t =
      Done (Some (kb\<lparr>kb_bids := foldl (\<lambda>bs l. upsert bs l False) (kb_bids kb) ls\<rparr>), None))
    \<and> (map to_level (dt_bids data) = map Some bs \<and> dt_asks data = good @ bad # rest \<longrightarrow>
        kraken_parse env (Some kb) raw t =
          Done (Some \<lparr>kb_bids = foldl (\<lambda>bs l. upsert bs l False) (kb_bids kb) bs,
            kb_asks = foldl (\<lambda>as l. upsert as l True) (kb_asks kb) ls\<rparr>, None))"
  using apply_levels_stops [OF assms(2,3)] apply_levels_all [of "dt_bids data" bs] assms(1)
  by (auto simp: kraken_parse_payload kraken_update_def apply_update_def)

definition broken_update :: book_data where
  "broken_update = \<lparr>
     dt_bids = [\<lparr>wl_price = ''6'', wl_qty = ''2''\<rparr>],
     dt_asks = [\<lparr>wl_price = ''7'', wl_qty = ''2''\<rparr>, \<lparr>wl_price = ''null'', wl_qty = ''1''\<rparr>], dt_checksum = 0\<rparr>"

definition broken_env :: kraken_env where
  "broken_env = sample_env\<lparr>ke_message := \<lambda>_. Some \<lparr>bm_kind = ''update'', bm_data = [broken_update]\<rparr>\<rparr>"

theorem kraken_update_half_applied_witness:
  "\<exists>b. kraken_parse broken_env (Some \<lparr>kb_bids = [], kb_asks = []\<rparr>) ''m'' (1, 2) = Done (Some b, None)
     \<and> map kl_price_raw (kb_bids b) = [''6''] \<and> map kl_price_raw (kb_asks b) = [''7'']"
proof -
  let ?level = "\<lambda>x raw. \<lparr>kl_price = x, kl_price_raw = raw, kl_qty = 0x4000000000000000, kl_qty_raw = ''2''\<rparr>"
  let ?bid = "?level 0x4018000000000000 ''6''" and ?ask = "?level 0x401c000000000000 ''7''"
  have p: "book_payload broken_env ''m'' = Some (''update'', broken_update)"
    and b: "to_level \<lparr>wl_price = ''null'', wl_qty = ''1''\<rparr> = None"
    and g: "map to_level [\<lparr>wl_price = ''7'', wl_qty = ''2''\<rparr>] = map Some [?ask]"
    and d: "map to_level (dt_bids broken_update) = map Some [?bid]
      \<and> dt_asks broken_update = [\<lparr>wl_price = ''7'', wl_qty = ''2''\<rparr>] @ \<lparr>wl_price = ''null'', wl_qty = ''1''\<rparr> # []"
    by code_simp+
  have "map kl_price_raw (upsert [] ?bid False) = [''6'']" "map kl_price_raw (upsert [] ?ask True) = [''7'']"
    by code_simp+
  then show ?thesis
    using kraken_update_half_applied [OF p b g, of "[]" "\<lparr>kb_bids = [], kb_asks = []\<rparr>" "(1, 2)" "[?bid]"] d by simp
qed

text \<open>
  C20. A pair has a Kraken symbol exactly when, lowercased, it is a nonempty base followed by
  a known quote currency, and the symbol is base, slash, quote in capitals; without a symbol
  nothing is subscribed.
\<close>

theorem kraken_symbol_correct:
  "(case to_kraken_symbol pair of
      Some s \<Rightarrow> \<exists>base q. q \<in> set QUOTE_SUFFIXES \<and> base \<noteq> [] \<and> to_lowercase pair = base @ q
        \<and> s = to_uppercase base @ ''/'' @ to_uppercase q
    | None \<Rightarrow> kraken_subscribe_message pair = None
        \<and> (\<forall>q\<in>set QUOTE_SUFFIXES. \<forall>base. to_lowercase pair = base @ q \<longrightarrow> base = []))"
proof (cases "to_kraken_symbol pair")
  case None
  then have "\<forall>q\<in>set QUOTE_SUFFIXES. \<forall>base. base \<noteq> [] \<longrightarrow> to_lowercase pair \<noteq> base @ q"
    by (simp only: to_kraken_symbol_def first_suffix_None)
  with None show ?thesis by (auto simp: kraken_subscribe_message_def)
next
  case (Some s)
  then show ?thesis using first_suffix_Some [of QUOTE_SUFFIXES] by (simp add: to_kraken_symbol_def)
qed

theorem kraken_symbol_correct_witness:
  "\<exists>base q. to_kraken_symbol ''ethusdt'' = Some ''ETH/USDT'' \<and> q \<in> set QUOTE_SUFFIXES
     \<and> ''ethusdt'' = base @ q"
proof -
  have "to_kraken_symbol ''ethusdt'' = Some ''ETH/USDT''" "to_lowercase ''ethusdt'' = ''ethusdt''"
    by code_simp+
  then show ?thesis using kraken_symbol_correct [of "''ethusdt''"] by auto
qed

end
