(* ===== verification/Reconnect.thy ===== *)
theory Reconnect
  imports Exchange
begin

text \<open>
  The reconnect policy of \<open>src/feed.rs\<close>: \<open>Backoff\<close> decides when to retry, \<open>TokenBucket\<close>
  whether a retry is allowed. The random multiplier of the jitter and the clock readings are
  arguments.
\<close>

section \<open>Backoff\<close>

definition STABILITY_WINDOW :: duration where
  "STABILITY_WINDOW = from_secs 30"

record backoff =
  bo_attempt :: u32

definition backoff_new :: backoff where
  "backoff_new = \<lparr>bo_attempt = 0\<rparr>"

definition checked_shl_1 :: "u32 \<Rightarrow> u64 option" where
  "checked_shl_1 n = (if unat n < 64 then Some (push_bit (unat n) 1) else None)"

definition saturating_succ :: "u32 \<Rightarrow> u32" where
  "saturating_succ n = (if n = - 1 then n else n + 1)"

definition next_delay :: "backoff \<Rightarrow> backoff \<times> duration" where
  "next_delay b =
     (let secs = (case checked_shl_1 (bo_attempt b) of None \<Rightarrow> - 1 | Some s \<Rightarrow> s);
          capped = min secs 30
      in (b\<lparr>bo_attempt := saturating_succ (bo_attempt b)\<rparr>, from_secs (unat capped)))"

definition jittered :: "f64 \<Rightarrow> duration \<Rightarrow> duration outcome" where
  "jittered multiplier delay = mul_f64 delay multiplier"

definition reset_if_stable :: "backoff \<Rightarrow> instant \<Rightarrow> instant \<Rightarrow> backoff" where
  "reset_if_stable b connected_at now =
     (if STABILITY_WINDOW < duration_since now connected_at then b\<lparr>bo_attempt := 0\<rparr> else b)"

section \<open>Token bucket\<close>

record token_bucket =
  tb_capacity :: f64
  tb_tokens :: f64
  tb_refill_per_sec :: f64
  tb_last_refill :: instant

definition token_bucket_new :: "f64 \<Rightarrow> f64 \<Rightarrow> instant \<Rightarrow> token_bucket" where
  "token_bucket_new capacity refill_per_sec now =
     \<lparr>tb_capacity = capacity, tb_tokens = capacity, tb_refill_per_sec = refill_per_sec,
      tb_last_refill = now\<rparr>"

definition refill :: "token_bucket \<Rightarrow> instant \<Rightarrow> token_bucket" where
  "refill b now =
     (let elapsed = as_secs_f64 (duration_since now (tb_last_refill b))
      in b\<lparr>tb_tokens := fmin (fadd (tb_tokens b) (fmul elapsed (tb_refill_per_sec b))) (tb_capacity b),
           tb_last_refill := now\<rparr>)"

text \<open>
  \<open>acquire\<close> over the clock readings of its rounds: the bucket, the sleeps so far, and
  whether it has returned; without it the readings ran out during a sleep.
\<close>

fun acquire :: "token_bucket \<Rightarrow> instant list \<Rightarrow> (token_bucket \<times> duration list \<times> bool) outcome" where
  "acquire b [] = Done (b, [], False)"
| "acquire b (now # clock) =
     (let b = refill b now
      in if fle f64_one (tb_tokens b) then Done (b\<lparr>tb_tokens := fsub (tb_tokens b) f64_one\<rparr>, [], True)
         else let deficit = fsub f64_one (tb_tokens b)
              in bind_outcome (from_secs_f64 (fdiv deficit (tb_refill_per_sec b))) (\<lambda>wait.
                   bind_outcome (acquire b clock) (\<lambda>(b', waits, got). Done (b', wait # waits, got))))"

section \<open>The schedule of delays\<close>

lemma saturating_succ_unat: "unat (saturating_succ n) = min (Suc (unat n)) (2 ^ 32 - 1)"
proof (cases "n = - 1")
  case True
  have "unat (- 1 :: u32) = 2 ^ 32 - 1" by code_simp
  with True show ?thesis by (simp add: saturating_succ_def)
next
  case False
  then have "unat n \<noteq> 2 ^ 32 - 1"
  proof -
    have "unat (- 1 :: u32) = 2 ^ 32 - 1" by code_simp
    with False show ?thesis by (metis word_unat_eq_iff)
  qed
  moreover have "unat n < 2 ^ 32" using unsigned_less [of n, where ?'a = nat] by simp
  ultimately have lt: "unat n + 1 < 2 ^ 32" by simp
  then have "unat (n + 1) = unat n + 1" by (subst unat_add_lem [THEN iffD1]) simp_all
  with lt False show ?thesis by (simp add: saturating_succ_def min_def)
qed

lemma capped_secs:
  "unat (min (case checked_shl_1 n of None \<Rightarrow> - 1 | Some s \<Rightarrow> s) (30 :: u64)) = min (2 ^ unat n) 30"
proof (cases "unat n < 64")
  case True
  have lt: "(2::nat) ^ unat n < 2 ^ 64" using True by (intro power_strict_increasing) simp_all
  have "unat (push_bit (unat n) (1 :: u64)) = take_bit LENGTH(64) (push_bit (unat n) (unat (1 :: u64)))"
    by (rule unsigned_push_bit_eq)
  also have "push_bit (unat n) (unat (1 :: u64)) = 2 ^ unat n" by (simp add: push_bit_eq_mult)
  also have "take_bit LENGTH(64) (2 ^ unat n) = (2 ^ unat n :: nat)"
    using lt by (intro take_bit_nat_eq_self) simp
  finally have "unat (push_bit (unat n) (1 :: u64)) = 2 ^ unat n" .
  then have "unat (min (push_bit (unat n) 1) (30 :: u64)) = min (2 ^ unat n) 30"
    by (simp add: min_def word_le_nat_alt)
  with True show ?thesis by (simp add: checked_shl_1_def)
next
  case False
  have m: "min (- 1 :: u64) 30 = 30" by code_simp
  have "(2::nat) ^ 5 \<le> 2 ^ unat n" using False by (intro power_increasing) simp_all
  then have "min (2 ^ unat n) 30 = (30 :: nat)" by simp
  with False m show ?thesis by (simp add: checked_shl_1_def)
qed

lemma next_delay_eq:
  "snd (next_delay b) = from_secs (min (2 ^ unat (bo_attempt b)) 30)"
  "bo_attempt (fst (next_delay b)) = saturating_succ (bo_attempt b)"
  by (simp_all add: next_delay_def Let_def capped_secs)

fun delays :: "nat \<Rightarrow> backoff \<Rightarrow> duration list" where
  "delays 0 b = []"
| "delays (Suc n) b = (let (b', d) = next_delay b in d # delays n b')"

lemma min_pow_30: "5 \<le> k \<Longrightarrow> min (2 ^ k) 30 = (30 :: nat)"
proof -
  assume "5 \<le> k"
  then have "(2::nat) ^ 5 \<le> 2 ^ k" by (intro power_increasing) simp_all
  then show ?thesis by simp
qed

lemma delays_from:
  "i < n \<Longrightarrow> delays n b ! i = from_secs (min (2 ^ (unat (bo_attempt b) + i)) 30)"
proof (induction n arbitrary: b i)
  case (Suc n)
  obtain b' d where nd: "next_delay b = (b', d)" by fastforce
  then have b': "d = from_secs (min (2 ^ unat (bo_attempt b)) 30)"
    "bo_attempt b' = saturating_succ (bo_attempt b)" using next_delay_eq [of b] by simp_all
  show ?case
  proof (cases i)
    case 0
    then show ?thesis by (simp add: nd b')
  next
    case (Suc j)
    have "delays n b' ! j = from_secs (min (2 ^ (unat (bo_attempt b') + j)) 30)"
      using Suc Suc.prems by (intro Suc.IH) simp
    also have "min (2 ^ (unat (bo_attempt b') + j)) 30 = min (2 ^ (unat (bo_attempt b) + i)) (30 :: nat)"
    proof (cases "Suc (unat (bo_attempt b)) \<le> 2 ^ 32 - 1")
      case True
      then have "unat (bo_attempt b') = Suc (unat (bo_attempt b))"
        unfolding b'(2) saturating_succ_unat by (simp only: min_absorb1)
      then show ?thesis by (simp add: Suc)
    next
      case False
      then have "5 \<le> unat (bo_attempt b') + j" "5 \<le> unat (bo_attempt b) + i"
        unfolding b'(2) saturating_succ_unat by simp_all
      then show ?thesis by (simp only: min_pow_30)
    qed
    finally show ?thesis by (simp add: nd Suc)
  qed
qed simp

lemma length_delays [simp]: "length (delays n b) = n"
  by (induction n arbitrary: b) (auto split: prod.split)

lemma delays_new: "delays n backoff_new = map (\<lambda>i. from_secs (min (2 ^ i) 30)) [0 ..< n]"
  by (rule nth_equalityI) (simp_all add: delays_from backoff_new_def)

section \<open>The bucket stays within its bounds\<close>

text \<open>A bucket built from a venue's connect rate.\<close>

definition bucket_ok :: "token_bucket \<Rightarrow> bool" where
  "bucket_ok b \<longleftrightarrow> is_finite (tb_tokens b) \<and> fle (f64_zero False) (tb_tokens b)
     \<and> fle (tb_tokens b) (tb_capacity b)
     \<and> (\<exists>v. connect_rate v = (tb_capacity b, tb_refill_per_sec b))"

lemma ieee_key_f64_zero [simp]: "ieee_key (f64_zero s) = 0"
  by (simp add: ieee_key_def f64_zero_def)

lemma connect_rate_capacity: "connect_rate v = (c, r) \<Longrightarrow> c = f64_five \<and> (r = f64_one \<or> r = f64_half)"
  by (cases v) auto

lemma literals: "is_finite f64_five" "is_finite f64_one" "\<not> f64_neg f64_one" "\<not> f64_neg f64_five"
  "pos_finite f64_one" "pos_finite f64_half" "\<not> is_zero f64_one" "\<not> is_zero f64_half"
  "fle f64_one f64_five"
  by code_simp+

lemma fle_finite: "is_finite y \<Longrightarrow> fle (f64_zero False) x \<Longrightarrow> fle x y \<Longrightarrow> is_finite x"
  by (auto simp: fle_def is_finite_def is_nan_def ieee_key_def split: if_splits)

lemma fle_trans: "fle x y \<Longrightarrow> fle y z \<Longrightarrow> fle x z"
  by (auto simp: fle_def)

lemma fle_sval: "is_finite x \<Longrightarrow> is_finite y \<Longrightarrow> fle x y \<longleftrightarrow> sval x \<le> sval y"
  using sval_less_iff [of y x] by (auto simp: fle_def is_finite_iff not_less [symmetric])

text \<open>Values that are zero or more, either zero included.\<close>

definition nonneg :: "f64 \<Rightarrow> bool" where
  "nonneg x \<longleftrightarrow> \<not> is_nan x \<and> 0 \<le> ieee_key x"

lemma nonnegI: "\<not> is_nan x \<Longrightarrow> \<not> f64_neg x \<Longrightarrow> nonneg x"
  by (simp add: nonneg_def ieee_key_def)

lemma nonneg_iff: "nonneg x \<longleftrightarrow> fle (f64_zero False) x"
  by (simp add: nonneg_def fle_def)

lemma nonneg_inf: "nonneg x \<Longrightarrow> is_inf x \<Longrightarrow> \<not> f64_neg x"
  by (auto simp: nonneg_def is_inf_def ieee_key_def)

lemma nonneg_sval: "nonneg x \<Longrightarrow> 0 \<le> sval x"
  by (auto simp: nonneg_def sval_def ieee_key_def split: if_splits)

lemma fadd_nonneg:
  assumes "nonneg x" "nonneg y"
  shows "nonneg (fadd x y)"
proof (cases "is_finite x \<and> is_finite y")
  case True
  then obtain s m where sum: "sval x + sval y = s * 2 ^ m"
    and fadd: "fadd x y = (if s = 0 then f64_zero (f64_neg x \<and> f64_neg y)
      else f64_make (s < 0) (round_ratio (nat \<bar>s\<bar>) 1 (int m)))"
    using fadd_exact by blast
  have "0 \<le> s * 2 ^ m" using nonneg_sval [OF assms(1)] nonneg_sval [OF assms(2)] by (simp flip: sum)
  then have "0 \<le> s" by (simp add: zero_le_mult_iff)
  then show ?thesis by (cases "s = 0") (simp_all add: fadd nonneg_def, simp add: ieee_key_def)
next
  case False
  with assms nonneg_inf [OF assms(1)] nonneg_inf [OF assms(2)] have "fadd x y = x \<or> fadd x y = y"
    by (simp add: fadd_def is_finite_iff nonneg_def) blast
  with assms show ?thesis by auto
qed

lemma f64_of_nat_nonneg: "nonneg (f64_of_nat n)"
  by (rule nonnegI) (simp_all add: f64_of_nat_def)

lemma f64_of_nat_pos: "\<not> is_nan (f64_of_nat n)" "\<not> f64_neg (f64_of_nat n)"
  by (simp_all add: f64_of_nat_def)

lemma f64_1e9_facts: "is_finite f64_1e9" "\<not> is_zero f64_1e9" "\<not> f64_neg f64_1e9"
  by code_simp+

lemma nonneg_scale:
  assumes "nonneg x" "is_finite c" "\<not> is_zero c" "\<not> f64_neg c"
  shows "nonneg (fmul x c)" "nonneg (fdiv x c)"
proof -
  have x: "\<not> is_nan x" using assms(1) by (simp add: nonneg_def)
  note m = fmul_sign [OF x assms(2-4)] and d = fdiv_sign [OF x assms(2-4)]
  have "is_zero x" if "f64_neg x"
    using assms(1) that by (simp add: nonneg_def ieee_key_def is_zero_def)
  then have z: "f64_neg x \<Longrightarrow> is_zero (fmul x c) \<and> is_zero (fdiv x c)"
    using x assms(2,3) zero_times [of x c] by simp
  show "nonneg (fmul x c)" "nonneg (fdiv x c)"
    using m d z by (auto simp: nonneg_def ieee_key_def is_zero_def)
qed

lemma as_secs_f64_nonneg: "nonneg (as_secs_f64 d)"
  unfolding as_secs_f64_def
  by (intro fadd_nonneg f64_of_nat_nonneg nonneg_scale(2) f64_1e9_facts)

lemma fmin_bounds:
  assumes "nonneg x" "is_finite c" "nonneg c"
  shows "nonneg (fmin x c)" "fle (fmin x c) c" "is_finite (fmin x c)"
proof -
  have c: "\<not> is_nan c" using assms(2) by (simp add: is_finite_iff)
  show lo: "nonneg (fmin x c)" using assms(1,3) by (auto simp: fmin_def nonneg_def)
  show hi: "fle (fmin x c) c" using assms(1) c by (auto simp: fmin_def fle_def flt_def nonneg_def)
  show "is_finite (fmin x c)" using assms(2) lo hi by (auto intro: fle_finite simp: nonneg_iff)
qed

lemma bucket_ok_iff:
  "bucket_ok b \<longleftrightarrow> is_finite (tb_tokens b) \<and> nonneg (tb_tokens b) \<and> fle (tb_tokens b) (tb_capacity b)
     \<and> (\<exists>v. connect_rate v = (tb_capacity b, tb_refill_per_sec b))"
  by (simp add: bucket_ok_def nonneg_iff)

lemma rate_facts:
  assumes "connect_rate v = (c, r)"
  shows "is_finite c" "nonneg c" "fle f64_one c" "is_finite r" "\<not> is_zero r" "\<not> f64_neg r"
proof -
  have five: "nonneg f64_five" by (rule nonnegI) (use literals in \<open>auto simp: is_finite_iff\<close>)
  note cr = connect_rate_capacity [OF assms]
  show "is_finite c" "nonneg c" "fle f64_one c" using cr five literals by simp_all
  show "is_finite r" "\<not> is_zero r" "\<not> f64_neg r" using cr literals by (auto simp: pos_finite_def)
qed

lemma refill_ok:
  assumes "bucket_ok b"
  shows "bucket_ok (refill b now)"
proof -
  obtain v where v: "connect_rate v = (tb_capacity b, tb_refill_per_sec b)"
    and t: "nonneg (tb_tokens b)" using assms by (auto simp: bucket_ok_iff)
  note r = rate_facts [OF v]
  have "nonneg (fadd (tb_tokens b)
      (fmul (as_secs_f64 (duration_since now (tb_last_refill b))) (tb_refill_per_sec b)))"
    by (intro fadd_nonneg t nonneg_scale(1) as_secs_f64_nonneg r(4-6))
  from fmin_bounds [OF this r(1,2)] v show ?thesis
    by (auto simp: bucket_ok_iff refill_def Let_def)
qed

lemma sval_one_pos: "0 \<le> sval f64_one"
  by (rule nonneg_sval, rule nonnegI) (use literals in \<open>auto simp: is_finite_iff\<close>)

lemma spend_ok:
  assumes "bucket_ok b" "fle f64_one (tb_tokens b)"
  shows "bucket_ok (b\<lparr>tb_tokens := fsub (tb_tokens b) f64_one\<rparr>)"
proof -
  let ?t = "tb_tokens b"
  obtain v where v: "connect_rate v = (tb_capacity b, tb_refill_per_sec b)"
    and t: "is_finite ?t" "nonneg ?t" "fle ?t (tb_capacity b)"
    using assms(1) by (auto simp: bucket_ok_iff)
  have one: "is_finite (fneg f64_one)" "\<not> is_nan f64_one" using literals by (simp_all add: is_finite_iff)
  have sub: "fsub ?t f64_one = fadd ?t (fneg f64_one)" using one by (simp add: fsub_def)
  have zero: "is_finite (f64_zero False)" "sval (f64_zero False) = 0" by code_simp+
  have le: "sval f64_one \<le> sval ?t" using assms(2) literals t(1) by (simp add: fle_sval)
  have "fle (fsub ?t f64_one) ?t" unfolding sub
    by (rule fadd_bounds(1) [OF t(1) one(1) t(1)]) (simp add: sval_one_pos)
  then have hi: "fle (fsub ?t f64_one) (tb_capacity b)" using t(3) by (rule fle_trans)
  have lo: "nonneg (fsub ?t f64_one)" unfolding nonneg_iff sub
    by (rule fadd_bounds(2) [OF t(1) one(1) zero(1)]) (simp add: zero le)
  have "is_finite (fsub ?t f64_one)"
    using rate_facts(1) [OF v] lo hi by (auto intro: fle_finite simp: nonneg_iff)
  with lo hi v show ?thesis by (auto simp: bucket_ok_iff)
qed

lemma token_bucket_new_ok:
  "bucket_ok (token_bucket_new (fst (connect_rate v)) (snd (connect_rate v)) t0)"
  using rate_facts [of v "fst (connect_rate v)" "snd (connect_rate v)"]
  by (auto simp: bucket_ok_iff token_bucket_new_def fle_def is_finite_iff)

text \<open>The wait for a missing token is short: the deficit is at most one token.\<close>

lemma wait_ok:
  assumes "bucket_ok b" "\<not> fle f64_one (tb_tokens b)"
  shows "\<exists>w. from_secs_f64 (fdiv (fsub f64_one (tb_tokens b)) (tb_refill_per_sec b)) = Done w
    \<and> w \<le> from_secs 2"
proof -
  let ?t = "tb_tokens b" and ?d = "fsub f64_one (tb_tokens b)"
  obtain v where v: "connect_rate v = (tb_capacity b, tb_refill_per_sec b)"
    and t: "is_finite ?t" "nonneg ?t" using assms(1) by (auto simp: bucket_ok_iff)
  note r = rate_facts(4-6) [OF v]
  have lt: "flt ?t f64_one"
    using assms(2) t literals by (auto simp: fle_def flt_def is_finite_iff nonneg_def)
  note s = fsub_finite [OF literals(2) t(1)]
  have neg: "is_finite (fneg ?t)" "fsub f64_one ?t = fadd f64_one (fneg ?t)"
    using t by (simp_all add: fsub_def is_finite_iff)
  have d_le: "fle ?d f64_one" unfolding neg(2)
    by (rule fadd_bounds(1) [OF literals(2) neg(1) literals(2)]) (simp add: nonneg_sval [OF t(2)])
  have d: "\<not> is_nan ?d" "\<not> f64_neg ?d" using s(1) s(3) [OF lt] by simp_all
  then have d_abs: "abs_bits ?d \<le> abs_bits f64_one" "pos_finite ?d"
    using d_le literals by (auto simp: fle_def ieee_key_def pos_finite_def is_finite_def is_nan_def)
  have le: "abs_bits (fdiv ?d (tb_refill_per_sec b)) \<le> abs_bits (fdiv f64_one (tb_refill_per_sec b))"
    using d_abs literals r by (intro fdiv_mono) (auto simp: pos_finite_def)
  have "from_secs_f64 (fdiv f64_one f64_one) = Done (from_secs 1)"
    "from_secs_f64 (fdiv f64_one f64_half) = Done (from_secs 2)"
    "is_finite (fdiv f64_one f64_one)" "is_finite (fdiv f64_one f64_half)" by code_simp+
  then obtain u where u: "from_secs_f64 (fdiv f64_one (tb_refill_per_sec b)) = Done u" "u \<le> from_secs 2"
    "is_finite (fdiv f64_one (tb_refill_per_sec b))"
    using connect_rate_capacity [OF v] by (auto simp: from_secs_def)
  have lo: "from_secs_f64 (f64_zero False) = Done 0" by code_simp
  have "\<not> f64_neg (fdiv ?d (tb_refill_per_sec b))" using fdiv_sign(1) [OF d(1) r] d(2) by simp
  from from_secs_f64_between [OF _ le this lo u(1,3)] u(2) show ?thesis
    by (auto simp: f64_zero_def)
qed

lemma acquire_ok:
  "bucket_ok b \<Longrightarrow> \<exists>b' waits got. acquire b clock = Done (b', waits, got) \<and> bucket_ok b'
     \<and> list_all (\<lambda>w. w \<le> from_secs 2) waits"
proof (induction b clock rule: acquire.induct)
  case (2 b now clock)
  have ok: "bucket_ok (refill b now)" using "2.prems" by (rule refill_ok)
  show ?case
  proof (cases "fle f64_one (tb_tokens (refill b now))")
    case True
    with spend_ok [OF ok] show ?thesis by (auto simp: Let_def intro: exI [of _ True])
  next
    case False
    obtain w where w: "from_secs_f64 (fdiv (fsub f64_one (tb_tokens (refill b now)))
        (tb_refill_per_sec (refill b now))) = Done w" "w \<le> from_secs 2"
      using wait_ok [OF ok False] by blast
    from "2.IH" [OF refl False refl ok] w False show ?thesis by (auto simp: Let_def)
  qed
qed (auto intro: exI [of _ False])

section \<open>A token comes with time\<close>

text \<open>Two seconds refill a token at every venue's rate, so a round that late returns.\<close>

lemma fadd_ge:
  assumes "nonneg x" "nonneg y" "is_finite c" "fle c x \<or> fle c y"
  shows "fle c (fadd x y)"
proof (cases "is_finite x \<and> is_finite y")
  case True
  have "sval c \<le> sval x \<or> sval c \<le> sval y" using assms(3,4) True by (simp add: fle_sval)
  then have "sval c \<le> sval x + sval y"
    using nonneg_sval [OF assms(1)] nonneg_sval [OF assms(2)] by auto
  with True assms(3) show ?thesis by (simp add: fadd_bounds(2))
next
  case False
  have inf: "fle c z" if "is_inf z" "nonneg z" for z
    using that assms(3) nonneg_inf [OF that(2,1)]
    by (auto simp: fle_def ieee_key_def is_inf_def is_finite_def is_nan_def nonneg_def)
  from False assms(1,2) nonneg_inf [OF assms(1)] nonneg_inf [OF assms(2)]
  have "fadd x y = x \<and> is_inf x \<or> fadd x y = y \<and> is_inf y"
    by (simp add: fadd_def is_finite_iff nonneg_def) blast
  with inf assms(1,2) show ?thesis by auto
qed

definition f64_two :: f64 where "f64_two = 0x4000000000000000"

lemma two_literals: "is_finite f64_two" "pos_finite f64_two" "fmul f64_two f64_one = f64_two"
  "fmul f64_two f64_half = f64_one" "fle f64_one f64_two" "abs_bits f64_two = round_ratio 2 1 1074"
  "0 < abs_bits f64_two"
  by code_simp+

lemma as_secs_f64_ge:
  assumes "from_secs 2 \<le> d"
  shows "fle f64_two (as_secs_f64 d)"
proof -
  have "2 \<le> d div 10 ^ 9" using div_le_mono [OF assms, of "10 ^ 9"] by (simp add: from_secs_def)
  then have "abs_bits f64_two \<le> abs_bits (f64_of_nat (d div 10 ^ 9))"
    unfolding two_literals(6) f64_of_nat_def using round_ratio_mono [of 1 1 2 1074 "d div 10 ^ 9" 1074]
    by (simp add: ratio_def)
  then have "fle f64_two (f64_of_nat (d div 10 ^ 9))"
    using two_literals(2) f64_of_nat_pos [of "d div 10 ^ 9"]
    by (auto simp: fle_def ieee_key_def pos_finite_def is_finite_iff)
  then show ?thesis unfolding as_secs_f64_def
    by (intro fadd_ge disjI1 f64_of_nat_nonneg nonneg_scale(2) f64_1e9_facts two_literals)
qed

lemma refill_full:
  assumes "bucket_ok b" "from_secs 2 \<le> duration_since now (tb_last_refill b)"
  shows "fle f64_one (tb_tokens (refill b now))"
proof -
  let ?e = "as_secs_f64 (duration_since now (tb_last_refill b))" and ?r = "tb_refill_per_sec b"
  obtain v where v: "connect_rate v = (tb_capacity b, ?r)" and t: "nonneg (tb_tokens b)"
    using assms(1) by (auto simp: bucket_ok_iff)
  note r = rate_facts [OF v]
  have e: "fle f64_two ?e" using assms(2) by (rule as_secs_f64_ge)
  have two: "fle f64_one (fmul f64_two ?r)" "nonneg (fmul ?e ?r)"
    using connect_rate_capacity [OF v] two_literals literals nonneg_scale(1) [OF as_secs_f64_nonneg r(4-6)]
    by (auto simp: fle_def is_finite_iff)
  have "fle f64_one (fmul ?e ?r)"
  proof (cases "is_finite ?e")
    case True
    then have pe: "pos_finite ?e" "abs_bits f64_two \<le> abs_bits ?e"
      using e two_literals(2,7) by (auto simp: pos_finite_def fle_def ieee_key_def split: if_splits)
    have pr: "pos_finite ?r" using r by (simp add: pos_finite_def)
    from fmul_mono [OF two_literals(2) pe(1) pr pe(2)]
    show ?thesis using two fmul_pos(2) [OF two_literals(2) pr] fmul_pos(2) [OF pe(1) pr]
      by (auto simp: fle_def ieee_key_def nonneg_def split: if_splits)
  next
    case False
    then have "is_inf ?e" "\<not> f64_neg ?e" "\<not> is_nan ?e"
      using as_secs_f64_nonneg nonneg_inf by (auto simp: nonneg_def is_finite_iff)
    then have "fmul ?e ?r = f64_inf False" using r by (auto simp: fmul_def is_finite_iff nonneg_def)
    moreover have "fle f64_one (f64_inf False)" by code_simp
    ultimately show ?thesis by simp
  qed
  then have "fle f64_one (fadd (tb_tokens b) (fmul ?e ?r))" using t two literals by (intro fadd_ge disjI2) auto
  with r(3) show ?thesis by (auto simp: refill_def Let_def fmin_def fle_def)
qed

lemma refill_time [simp]: "tb_last_refill (refill b now) = now"
  by (simp add: refill_def Let_def)

lemma acquire_got:
  "bucket_ok b \<Longrightarrow> \<not> successively (\<lambda>t t'. duration_since t' t < from_secs 2) (tb_last_refill b # clock) \<Longrightarrow>
     \<exists>b' waits. acquire b clock = Done (b', waits, True)"
proof (induction b clock rule: acquire.induct)
  case (2 b now clock)
  have ok: "bucket_ok (refill b now)" using "2.prems"(1) by (rule refill_ok)
  show ?case
  proof (cases "fle f64_one (tb_tokens (refill b now))")
    case False
    obtain w where w: "from_secs_f64 (fdiv (fsub f64_one (tb_tokens (refill b now)))
        (tb_refill_per_sec (refill b now))) = Done w"
      using wait_ok [OF ok False] by blast
    have "duration_since now (tb_last_refill b) < from_secs 2"
      using refill_full [OF "2.prems"(1)] False by (meson not_le)
    then have "\<not> successively (\<lambda>t t'. duration_since t' t < from_secs 2)
        (tb_last_refill (refill b now) # clock)"
      using "2.prems"(2) by simp
    from "2.IH" [OF refl False refl ok this] w False show ?thesis by (auto simp: Let_def)
  qed (auto simp: Let_def)
qed simp

section \<open>The jitter stays within half\<close>

lemma jitter_factors:
  assumes "fle f64_half m" "fle m f64_three_halves"
  shows "pos_finite m" "abs_bits f64_half \<le> abs_bits m" "abs_bits m \<le> abs_bits f64_three_halves"
proof -
  have ends: "is_finite f64_three_halves" "\<not> f64_neg f64_three_halves" "\<not> f64_neg f64_half"
    "0 < abs_bits f64_half" by code_simp+
  then have m: "\<not> f64_neg m" using assms(1) by (auto simp: fle_def ieee_key_def split: if_splits)
  then show le: "abs_bits f64_half \<le> abs_bits m" "abs_bits m \<le> abs_bits f64_three_halves"
    using assms ends by (auto simp: fle_def ieee_key_def)
  then show "pos_finite m" using ends(1) m by (simp add: pos_finite_def is_finite_def)
qed

lemma jittered_between:
  assumes "fle f64_half m" "fle m f64_three_halves" "pos_finite (as_secs_f64 d)"
    and "jittered f64_half d = Done a" "jittered f64_three_halves d = Done b"
    and "is_finite (fmul f64_three_halves (as_secs_f64 d))"
  shows "\<exists>w. jittered m d = Done w \<and> a \<le> w \<and> w \<le> b"
proof -
  note m = jitter_factors [OF assms(1,2)]
  have ends: "pos_finite f64_half" "pos_finite f64_three_halves" by code_simp+
  show ?thesis unfolding jittered_def mul_f64_def
    by (rule from_secs_f64_between
        [OF fmul_mono [OF ends(1) m(1) assms(3) m(2)] fmul_mono [OF m(1) ends(2) assms(3) m(3)]
          fmul_pos(2) [OF m(1) assms(3)] assms(4,5) [unfolded jittered_def mul_f64_def] assms(6)])
qed

text \<open>The delays of the schedule.\<close>

definition backoff_secs :: "nat list" where
  "backoff_secs = [1, 2, 4, 8, 16, 30]"

lemma backoff_secs: "min (2 ^ k) 30 \<in> set backoff_secs"
proof (cases "k < 5")
  case True
  then have "k \<in> set [0 ..< 5]" by simp
  then show ?thesis by (auto simp: backoff_secs_def upt_rec numeral_eq_Suc)
next
  case False
  then have "min (2 ^ k) 30 = (30 :: nat)" by (intro min_pow_30) simp
  then show ?thesis by (simp add: backoff_secs_def)
qed

text \<open>The ends of the jitter at each of them, on literals.\<close>

lemma fadd_zero_right:
  assumes "pos_finite x"
  shows "fadd x 0 = x"
proof -
  have zero: "scl 0 = 0" "mant 0 = 0" "\<not> is_nan 0" "\<not> is_inf 0" by code_simp+
  have x: "\<not> is_nan x" "\<not> is_inf x" "\<not> f64_neg x" "abs_bits x \<le> inf_bits"
    using assms by (auto simp: pos_finite_def is_finite_def is_nan_def is_inf_def)
  have units: "mant x * 2 ^ scl x = units (abs_bits x)" by (simp add: units_def mant_def scl_def)
  have exact: "round_ratio (units (abs_bits x)) 1 0 = abs_bits x"
    using x(4) by (intro round_ratio_exact) simp_all
  have "fadd x 0 = (if int (units (abs_bits x)) = 0 then f64_zero False
      else f64_make False (round_ratio (units (abs_bits x)) 1 0))"
    using x zero by (simp add: fadd_def Let_def units [symmetric] nat_int_mult mult_less_0_iff)
  also have "\<dots> = f64_make False (abs_bits x)"
    using exact by (auto simp: f64_zero_def round_ratio_def)
  also have "\<dots> = x" using f64_make_inverse [of x] x(3) by simp
  finally show ?thesis .
qed

lemma as_secs_from_secs: "as_secs_f64 (from_secs k) = fadd (f64_of_nat k) 0"
proof -
  have "fdiv (f64_of_nat 0) f64_1e9 = 0" by code_simp
  then show ?thesis by (simp add: as_secs_f64_def from_secs_def)
qed

lemma schedule_float:
  "f64_of_nat 1 = 0x3ff0000000000000"
  "f64_of_nat 2 = 0x4000000000000000"
  "f64_of_nat 4 = 0x4010000000000000"
  "f64_of_nat 8 = 0x4020000000000000"
  "f64_of_nat 16 = 0x4030000000000000"
  "f64_of_nat 30 = 0x403e000000000000"
  by code_simp+

lemma schedule_finite:
  "is_finite 0x3ff8000000000000" "pos_finite 0x3ff0000000000000"
  "is_finite 0x4008000000000000" "pos_finite 0x4000000000000000"
  "is_finite 0x4018000000000000" "pos_finite 0x4010000000000000"
  "is_finite 0x4028000000000000" "pos_finite 0x4020000000000000"
  "is_finite 0x4038000000000000" "pos_finite 0x4030000000000000"
  "is_finite 0x4046800000000000" "pos_finite 0x403e000000000000"
  by code_simp+

lemmas schedule_secs = as_secs_from_secs schedule_float
  schedule_finite(2,4,6,8,10,12) [THEN fadd_zero_right]

lemma schedule_halves:
  "fmul f64_half 0x3ff0000000000000 = 0x3fe0000000000000"
  "fmul f64_half 0x4000000000000000 = 0x3ff0000000000000"
  "fmul f64_half 0x4010000000000000 = 0x4000000000000000"
  "fmul f64_half 0x4020000000000000 = 0x4010000000000000"
  "fmul f64_half 0x4030000000000000 = 0x4020000000000000"
  "fmul f64_half 0x403e000000000000 = 0x402e000000000000"
  by code_simp+

lemma schedule_three_halves:
  "fmul f64_three_halves 0x3ff0000000000000 = 0x3ff8000000000000"
  "fmul f64_three_halves 0x4000000000000000 = 0x4008000000000000"
  "fmul f64_three_halves 0x4010000000000000 = 0x4018000000000000"
  "fmul f64_three_halves 0x4020000000000000 = 0x4028000000000000"
  "fmul f64_three_halves 0x4030000000000000 = 0x4038000000000000"
  "fmul f64_three_halves 0x403e000000000000 = 0x4046800000000000"
  by code_simp+

lemma schedule_nanos:
  "from_secs_f64 0x3fe0000000000000 = Done 500000000"
  "from_secs_f64 0x3ff0000000000000 = Done 1000000000"
  "from_secs_f64 0x3ff8000000000000 = Done 1500000000"
  "from_secs_f64 0x4000000000000000 = Done 2000000000"
  "from_secs_f64 0x4008000000000000 = Done 3000000000"
  "from_secs_f64 0x4010000000000000 = Done 4000000000"
  "from_secs_f64 0x4018000000000000 = Done 6000000000"
  "from_secs_f64 0x4020000000000000 = Done 8000000000"
  "from_secs_f64 0x4028000000000000 = Done 12000000000"
  "from_secs_f64 0x402e000000000000 = Done 15000000000"
  "from_secs_f64 0x4038000000000000 = Done 24000000000"
  "from_secs_f64 0x4046800000000000 = Done 45000000000"
  by code_simp+

lemmas schedule = jittered_def mul_f64_def schedule_secs schedule_halves schedule_three_halves
  schedule_nanos schedule_finite

lemma jittered_ends:
  assumes "k \<in> set backoff_secs"
  shows "pos_finite (as_secs_f64 (from_secs k))"
    and "is_finite (fmul f64_three_halves (as_secs_f64 (from_secs k)))"
    and "jittered f64_half (from_secs k) = Done (from_secs k div 2)"
    and "jittered f64_three_halves (from_secs k) = Done (from_secs k div 2 * 3)"
proof -
  have half: "Done (from_secs k div 2) = Done (k * 500000000)"
    "Done (from_secs k div 2 * 3) = Done (k * 1500000000)" by (simp_all add: from_secs_def)
  have "k = 1 \<or> k = 2 \<or> k = 4 \<or> k = 8 \<or> k = 16 \<or> k = 30"
    using assms by (simp add: backoff_secs_def)
  then show "pos_finite (as_secs_f64 (from_secs k))"
    and "is_finite (fmul f64_three_halves (as_secs_f64 (from_secs k)))"
    and "jittered f64_half (from_secs k) = Done (from_secs k div 2)"
    and "jittered f64_three_halves (from_secs k) = Done (from_secs k div 2 * 3)"
    unfolding half
    by (elim disjE; simp only: schedule; simp)+
qed

text \<open>So jittering a delay of the schedule never panics.\<close>

lemma jittered_ok:
  assumes "fle f64_half m" "fle m f64_three_halves"
  shows "\<exists>w. jittered m (snd (next_delay b)) = Done w
    \<and> snd (next_delay b) div 2 \<le> w \<and> w \<le> snd (next_delay b) div 2 * 3 \<and> w \<le> from_secs 45"
proof -
  define k where "k = (min (2 ^ unat (bo_attempt b)) 30 :: nat)"
  have d: "snd (next_delay b) = from_secs k" by (simp add: next_delay_eq k_def)
  have k: "k \<in> set backoff_secs" "k \<le> 30" using backoff_secs by (simp_all add: k_def)
  have "\<exists>w. jittered m (from_secs k) = Done w \<and> from_secs k div 2 \<le> w \<and> w \<le> from_secs k div 2 * 3"
    by (rule jittered_between [OF assms]) (rule jittered_ends [OF k(1)])+
  moreover have "from_secs k div 2 * 3 \<le> from_secs 45" using k(2) by (simp add: from_secs_def)
  ultimately show ?thesis unfolding d by (meson le_trans)
qed

section \<open>Properties\<close>

text \<open>A feed's bucket over its life: \<open>acquire\<close> again and again, with the sleeps of all.\<close>

fun acquires :: "token_bucket \<Rightarrow> instant list list \<Rightarrow> (token_bucket \<times> duration list) outcome" where
  "acquires b [] = Done (b, [])"
| "acquires b (clock # clocks) =
     bind_outcome (acquire b clock) (\<lambda>(b', waits, got).
       bind_outcome (acquires b' clocks) (\<lambda>(b'', waits'). Done (b'', waits @ waits')))"

lemma acquires_ok:
  "bucket_ok b \<Longrightarrow> \<exists>b' waits. acquires b clocks = Done (b', waits) \<and> bucket_ok b'
     \<and> list_all (\<lambda>w. w \<le> from_secs 2) waits"
proof (induction clocks arbitrary: b)
  case (Cons clock clocks)
  obtain b1 w1 g1 where one: "acquire b clock = Done (b1, w1, g1)" "bucket_ok b1"
    "list_all (\<lambda>w. w \<le> from_secs 2) w1" using acquire_ok [OF Cons.prems] by blast
  obtain b2 w2 where "acquires b1 clocks = Done (b2, w2)" "bucket_ok b2"
    "list_all (\<lambda>w. w \<le> from_secs 2) w2" using Cons.IH [OF one(2)] by blast
  with one show ?case by simp
qed simp

text \<open>
  C24. However often connections are attempted and whatever the clock shows, \<open>acquire\<close> never
  panics and no wait is longer than two seconds; at every moment, in particular right after any
  refill, the bucket holds at most its capacity and not less than nothing; and from any such
  bucket \<open>acquire\<close> returns with a token once its clock is seen to advance by two seconds.
\<close>

theorem bucket_never_overflows:
  "\<exists>b waits. acquires (token_bucket_new (fst (connect_rate v)) (snd (connect_rate v)) t0) clocks = Done (b, waits)
     \<and> list_all (\<lambda>w. w \<le> from_secs 2) waits
     \<and> (\<forall>b'\<in>{b, refill b now}. fle (f64_zero False) (tb_tokens b') \<and> fle (tb_tokens b') (fst (connect_rate v)))
     \<and> (\<not> successively (\<lambda>t t'. duration_since t' t < from_secs 2) (tb_last_refill b # clock) \<longrightarrow>
          (\<exists>b' ws. acquire b clock = Done (b', ws, True)))"
proof -
  let ?new = "token_bucket_new (fst (connect_rate v)) (snd (connect_rate v)) t0"
  obtain b waits where b: "acquires ?new clocks = Done (b, waits)" "bucket_ok b"
    "list_all (\<lambda>w. w \<le> from_secs 2) waits" using acquires_ok [OF token_bucket_new_ok] by blast
  have cap: "fst (connect_rate u) = f64_five" for u by (cases u) simp_all
  have within: "fle (f64_zero False) (tb_tokens b') \<and> fle (tb_tokens b') (fst (connect_rate v))"
    if ok: "bucket_ok b'" for b'
  proof -
    obtain u where "connect_rate u = (tb_capacity b', tb_refill_per_sec b')"
      using ok unfolding bucket_ok_def by blast
    then have "tb_capacity b' = fst (connect_rate v)" using cap [of u] cap [of v] by simp
    with ok show ?thesis by (simp add: bucket_ok_def)
  qed
  from within [OF b(2)] within [OF refill_ok [OF b(2)]] b(1,3) acquire_got [OF b(2)]
  show ?thesis by (intro exI [of _ b] exI [of _ waits]) simp
qed

theorem bucket_never_overflows_witness:
  "\<exists>b ws. acquire (token_bucket_new f64_five f64_one 0) [from_secs 2] = Done (b, ws, True)"
proof -
  have "\<not> successively (\<lambda>t t'. duration_since t' t < from_secs 2) [0, from_secs 2]"
    by (simp add: duration_since_def from_secs_def)
  then show ?thesis
    using bucket_never_overflows [of Binance 0 "[]" 0 "[from_secs 2]"] by (simp add: token_bucket_new_def)
qed

end
