(* ===== verification/Proxy.thy ===== *)
theory Proxy
  imports Rust_Str
begin

text \<open>
  \<open>src/proxy.rs\<close>: the proxy address of the environment and the HTTP CONNECT handshake. A
  \<open>char\<close> is one byte. The peer is the list of what the reads of its socket return, in order;
  where the list ends, a read is still pending.
\<close>

section \<open>The proxy address\<close>

definition parse_proxy_addr :: "string \<Rightarrow> (string \<times> u16) option" where
  "parse_proxy_addr raw =
     (let without_scheme = (case split_once ''://'' raw of None \<Rightarrow> raw | Some (_, rest) \<Rightarrow> rest);
          host_port = split_next CHR ''/'' without_scheme
      in case rsplit_once CHR '':'' host_port of
           None \<Rightarrow> None
         | Some (host, port) \<Rightarrow>
             (case parse_u16 port of
                None \<Rightarrow> None
              | Some port \<Rightarrow> if host = [] then None else Some (host, port)))"

section \<open>Reading the response\<close>

text \<open>One read of the socket: some bytes (none at the end of the stream) or an error.\<close>

datatype tcp_read = Bytes string | Read_Error

abbreviation newline :: char where
  "newline \<equiv> CHR 0x0A"

definition CRLF :: string where
  "CRLF = [CHR 0x0D, newline]"

definition ends_with :: "string \<Rightarrow> string \<Rightarrow> bool" where
  "ends_with p s \<longleftrightarrow> strip_suffix p s \<noteq> None"

text \<open>The bytes through the first newline, and those after it.\<close>

definition line_of :: "string \<Rightarrow> string" where
  "line_of s = split_next newline s @ [newline]"

definition after_line :: "string \<Rightarrow> string" where
  "after_line s = drop (length (line_of s)) s"

lemma line_of_append: "newline \<notin> set a \<Longrightarrow> line_of (a @ newline # b) = a @ [newline]"
  by (simp add: line_of_def split_next_append)

lemma after_line_append: "newline \<notin> set a \<Longrightarrow> after_line (a @ newline # b) = b"
  by (simp add: after_line_def line_of_append)

lemma lineE:
  assumes "newline \<in> set s"
  obtains a b where "s = a @ newline # b" "newline \<notin> set a" "line_of s = a @ [newline]" "after_line s = b"
proof -
  from assms obtain a b where s: "s = a @ newline # b" "newline \<notin> set a" by (auto dest: split_list_first)
  then show ?thesis using that by (simp add: line_of_append after_line_append)
qed

text \<open>
  \<open>read_until(b'\n')\<close> of a \<open>BufReader\<close> that holds \<open>held\<close> and refills from \<open>reads\<close>: the bytes
  up to the newline or, at the end of the stream, all that is left; with the reader after it.
  None while a read is pending.
\<close>

fun read_until :: "string \<Rightarrow> tcp_read list \<Rightarrow> (unit + string \<times> string \<times> tcp_read list) option" where
  "read_until held [] =
     (if newline \<in> set held then Some (Inr (line_of held, after_line held, [])) else None)"
| "read_until held (r # reads) =
     (if newline \<in> set held then Some (Inr (line_of held, after_line held, r # reads))
      else case r of
        Read_Error \<Rightarrow> Some (Inl ())
      | Bytes s \<Rightarrow>
          if s = [] then Some (Inr (held, [], r # reads))
          else (case read_until s reads of
                  Some (Inr (line, rest)) \<Rightarrow> Some (Inr (held @ line, rest))
                | other \<Rightarrow> other))"

fun bytes_of :: "tcp_read \<Rightarrow> string" where
  "bytes_of (Bytes s) = s"
| "bytes_of Read_Error = []"

definition unread :: "string \<Rightarrow> tcp_read list \<Rightarrow> string" where
  "unread held reads = held @ concat (map bytes_of reads)"

text \<open>What \<open>read_until\<close> returns it takes from the front of the unread bytes.\<close>

lemma line_after: "newline \<in> set s \<Longrightarrow> line_of s @ after_line s = s"
  by (erule lineE) simp

lemma read_until_unread:
  "read_until held reads = Some (Inr (line, held', reads')) \<Longrightarrow>
     unread held reads = line @ unread held' reads'"
proof (induction held reads arbitrary: line held' reads' rule: read_until.induct)
  case (1 held)
  then show ?case using line_after [of held] by (auto simp: unread_def split: if_splits)
next
  case (2 held r reads)
  show ?case
  proof (cases "newline \<in> set held")
    case True
    with 2(2) show ?thesis using line_after [OF True] by (auto simp: unread_def)
  next
    case False
    show ?thesis
    proof (cases r)
      case (Bytes s)
      with False 2(2) 2(1) [OF False Bytes] show ?thesis
        by (auto simp: unread_def split: if_splits option.splits sum.splits)
    qed (use False 2(2) in auto)
  qed
qed

datatype proxy_error =
    Proxy_Unreachable
  | Request_Not_Written
  | Response_Not_Read
  | Closed_Early
  | Not_Utf8
  | Refused string

text \<open>The loop of \<open>read_http_response_headers\<close>; \<open>n == 0\<close> is an empty line of \<open>read_until\<close>.\<close>

function read_headers ::
    "string \<Rightarrow> string \<Rightarrow> tcp_read list \<Rightarrow> (proxy_error + string \<times> tcp_read list) option" where
  "read_headers buf held reads =
     (case read_until held reads of
        None \<Rightarrow> None
      | Some (Inl _) \<Rightarrow> Some (Inl Response_Not_Read)
      | Some (Inr (line, held', reads')) \<Rightarrow>
          if line = [] then Some (Inl Closed_Early)
          else if ends_with (CRLF @ CRLF) (buf @ line) then Some (Inr (buf @ line, reads'))
          else read_headers (buf @ line) held' reads')"
  by pat_completeness auto
termination
  by (relation "measure (\<lambda>(buf, held, reads). length (unread held reads))") (auto dest: read_until_unread)

declare read_headers.simps [simp del]

text \<open>\<open>String::from_utf8\<close>: the well-formed byte sequences of the Unicode standard.\<close>

definition byte_in :: "nat \<Rightarrow> nat \<Rightarrow> char \<Rightarrow> bool" where
  "byte_in lo hi c \<longleftrightarrow> lo \<le> char_code c \<and> char_code c \<le> hi"

definition utf8_tail :: "char \<Rightarrow> (char \<Rightarrow> bool) list option" where
  "utf8_tail c =
     (let t = byte_in 0x80 0xBF
      in if byte_in 0x00 0x7F c then Some []
         else if byte_in 0xC2 0xDF c then Some [t]
         else if byte_in 0xE0 0xE0 c then Some [byte_in 0xA0 0xBF, t]
         else if byte_in 0xED 0xED c then Some [byte_in 0x80 0x9F, t]
         else if byte_in 0xE1 0xEF c then Some [t, t]
         else if byte_in 0xF0 0xF0 c then Some [byte_in 0x90 0xBF, t, t]
         else if byte_in 0xF1 0xF3 c then Some [t, t, t]
         else if byte_in 0xF4 0xF4 c then Some [byte_in 0x80 0x8F, t, t]
         else None)"

fun utf8_rest :: "(char \<Rightarrow> bool) list \<Rightarrow> string \<Rightarrow> bool" where
  "utf8_rest [] [] = True"
| "utf8_rest (p # ps) [] = False"
| "utf8_rest (p # ps) (c # s) = (p c \<and> utf8_rest ps s)"
| "utf8_rest [] (c # s) = (case utf8_tail c of None \<Rightarrow> False | Some ps \<Rightarrow> utf8_rest ps s)"

definition utf8_valid :: "string \<Rightarrow> bool" where
  "utf8_valid s = utf8_rest [] s"

text \<open>The text and the reads left in the socket: what the \<open>BufReader\<close> still held is dropped with it.\<close>

definition read_http_response_headers ::
    "tcp_read list \<Rightarrow> (proxy_error + string \<times> tcp_read list) option" where
  "read_http_response_headers reads =
     (case read_headers [] [] reads of
        Some (Inr (buf, reads')) \<Rightarrow> Some (if utf8_valid buf then Inr (buf, reads') else Inl Not_Utf8)
      | other \<Rightarrow> other)"

section \<open>The handshake\<close>

text \<open>\<open>s.lines().next().unwrap_or("")\<close>\<close>

definition first_line :: "string \<Rightarrow> string" where
  "first_line s =
     (if newline \<in> set s
      then (case strip_suffix [CHR 0x0D] (split_next newline s) of
              None \<Rightarrow> split_next newline s | Some l \<Rightarrow> l)
      else s)"

definition connect_request :: "string \<Rightarrow> u16 \<Rightarrow> string" where
  "connect_request host port =
     (let target = host @ '':'' @ show_nat (unat port)
      in ''CONNECT '' @ target @ '' HTTP/1.1'' @ CRLF @ ''Host: '' @ target @ CRLF @ CRLF)"

record proxy_io =
  io_connect :: bool
  io_write :: bool
  io_reads :: "tcp_read list"

text \<open>The request, once it is written, and the tunnel (the reads left in it) or the error.\<close>

definition connect_through_proxy ::
    "proxy_io \<Rightarrow> string \<Rightarrow> u16 \<Rightarrow> string \<times> (proxy_error + tcp_read list) option" where
  "connect_through_proxy io target_host target_port =
     (if \<not> io_connect io then ([], Some (Inl Proxy_Unreachable))
      else if \<not> io_write io then ([], Some (Inl Request_Not_Written))
      else (connect_request target_host target_port,
            case read_http_response_headers (io_reads io) of
              None \<Rightarrow> None
            | Some (Inl e) \<Rightarrow> Some (Inl e)
            | Some (Inr (response, tunnel)) \<Rightarrow>
                let status_line = first_line response
                in Some (if contains '' 200 '' status_line then Inr tunnel else Inl (Refused status_line))))"

section \<open>Any segmentation\<close>

text \<open>The reference: the text grown byte by byte until it ends in a blank line.\<close>

fun header_end :: "string \<Rightarrow> string \<Rightarrow> string option" where
  "header_end acc [] = None"
| "header_end acc (c # s) =
     (if ends_with (CRLF @ CRLF) (acc @ [c]) then Some (acc @ [c]) else header_end (acc @ [c]) s)"

lemma ends_with_iff: "ends_with p s \<longleftrightarrow> (\<exists>r. s = r @ p)"
  by (auto simp: ends_with_def strip_suffix_Some)

lemma ends_with_newline: "ends_with (CRLF @ CRLF) (s @ [c]) \<Longrightarrow> c = newline"
  by (auto simp: ends_with_iff CRLF_def)

lemma no_blank_line: "newline \<notin> set a \<Longrightarrow> \<not> ends_with (CRLF @ CRLF) a"
  by (auto simp: ends_with_iff CRLF_def)

lemma header_end_none: "newline \<notin> set s \<Longrightarrow> header_end acc s = None"
  by (induction s arbitrary: acc) (auto dest: ends_with_newline)

lemma header_end_line:
  "newline \<notin> set a \<Longrightarrow> header_end acc (a @ newline # b) =
     (if ends_with (CRLF @ CRLF) (acc @ a @ [newline]) then Some (acc @ a @ [newline])
      else header_end (acc @ a @ [newline]) b)"
proof (induction a arbitrary: acc)
  case (Cons c a)
  then have "\<not> ends_with (CRLF @ CRLF) (acc @ [c])" using ends_with_newline by auto
  with Cons.IH [of "acc @ [c]"] Cons.prems show ?case by simp
qed simp

text \<open>What follows the data: nothing yet, the end of the stream, or an error.\<close>

fun stopped :: "tcp_read list \<Rightarrow> bool" where
  "stopped [] = True"
| "stopped (Bytes s # rs) = (s = [])"
| "stopped (Read_Error # rs) = True"

fun stop_error :: "tcp_read list \<Rightarrow> proxy_error option" where
  "stop_error [] = None"
| "stop_error (Bytes s # rs) = Some Closed_Early"
| "stop_error (Read_Error # rs) = Some Response_Not_Read"

lemma stopped_cases:
  assumes "stopped tail"
  obtains (pending) "tail = []" | (closed) rs where "tail = Bytes [] # rs" | (failed) rs where "tail = Read_Error # rs"
  using assms by (cases tail rule: stopped.cases) auto

lemma read_until_line:
  "[] \<notin> set segs \<Longrightarrow> newline \<in> set (held @ concat segs) \<Longrightarrow>
     \<exists>held' segs'. read_until held (map Bytes segs @ tail) =
         Some (Inr (line_of (held @ concat segs), held', map Bytes segs' @ tail))
       \<and> [] \<notin> set segs' \<and> held' @ concat segs' = after_line (held @ concat segs)"
proof (induction segs arbitrary: held)
  case (Nil held)
  then show ?case by (cases tail) (auto intro: exI [of _ "[]"])
next
  case (Cons s segs)
  show ?case
  proof (cases "newline \<in> set held")
    case True
    then obtain a b where h: "held = a @ newline # b" "newline \<notin> set a" by (rule lineE)
    with Cons.prems(1) show ?thesis
      by (auto simp: line_of_append after_line_append intro: exI [of _ "s # segs"])
  next
    case False
    with Cons.prems obtain held' segs' where ih:
      "read_until s (map Bytes segs @ tail) =
         Some (Inr (line_of (s @ concat segs), held', map Bytes segs' @ tail))"
      "[] \<notin> set segs'" "held' @ concat segs' = after_line (s @ concat segs)"
      using Cons.IH [of s] by auto
    obtain a b where sb: "s @ concat segs = a @ newline # b" "newline \<notin> set a"
      using Cons.prems(2) False lineE [of "s @ concat segs"] by (metis Un_iff concat.simps(2) set_append)
    have app: "held @ s @ concat segs = (held @ a) @ newline # b" "newline \<notin> set (held @ a)"
      using sb False by auto
    have "line_of (held @ s @ concat segs) = held @ line_of (s @ concat segs)"
      "after_line (held @ s @ concat segs) = after_line (s @ concat segs)"
      using line_of_append [OF app(2), of b] after_line_append [OF app(2), of b]
        line_of_append [OF sb(2), of b] after_line_append [OF sb(2), of b] by (simp_all add: app(1) sb(1))
    with ih False Cons.prems(1) show ?thesis by auto
  qed
qed

lemma read_until_no_line:
  "[] \<notin> set segs \<Longrightarrow> newline \<notin> set (held @ concat segs) \<Longrightarrow> stopped tail \<Longrightarrow>
     read_until held (map Bytes segs @ tail) =
       (case tail of [] \<Rightarrow> None
        | Bytes s # rs \<Rightarrow> Some (Inr (held @ concat segs, [], tail))
        | Read_Error # rs \<Rightarrow> Some (Inl ()))"
  by (induction segs arbitrary: held) (auto elim!: stopped_cases split: list.splits tcp_read.splits)

lemma read_headers_segments:
  assumes "[] \<notin> set segs" "stopped tail"
  shows "map_option (map_sum id fst) (read_headers buf held (map Bytes segs @ tail)) =
    (case header_end buf (held @ concat segs) of
       Some h \<Rightarrow> Some (Inr h) | None \<Rightarrow> map_option Inl (stop_error tail))"
  using assms(1)
proof (induction "length (held @ concat segs)" arbitrary: buf held segs rule: less_induct)
  case less
  let ?s = "held @ concat segs"
  show ?case
  proof (cases "newline \<in> set ?s")
    case True
    then obtain a b where s: "?s = a @ newline # b" "newline \<notin> set a" "line_of ?s = a @ [newline]"
      "after_line ?s = b" by (rule lineE)
    from read_until_line [OF less.prems True, of tail] obtain held' segs' where r:
      "read_until held (map Bytes segs @ tail) = Some (Inr (a @ [newline], held', map Bytes segs' @ tail))"
      "[] \<notin> set segs'" "held' @ concat segs' = b"
      using s by auto
    have "length (held' @ concat segs') < length ?s" unfolding r(3) s(1) by simp
    note ih = less.hyps [OF this r(2), of "buf @ a @ [newline]"]
    show ?thesis unfolding s(1) header_end_line [OF s(2)]
      by (subst read_headers.simps) (use ih r in simp)
  next
    case False
    note r = read_until_no_line [OF less.prems False assms(2)]
    have h: "header_end buf ?s = None" using False by (rule header_end_none)
    from assms(2) show ?thesis
    proof (cases rule: stopped_cases)
      case (closed rs)
      have eof: "read_headers b [] (Bytes [] # rs) = Some (Inl Closed_Early)" for b
        by (subst read_headers.simps) simp
      have "\<not> ends_with (CRLF @ CRLF) (buf @ ?s)" if "?s \<noteq> []"
        using that False ends_with_newline [of "buf @ butlast ?s" "last ?s"] last_in_set [OF that]
        by (metis append.assoc append_butlast_last_id)
      then show ?thesis by (subst read_headers.simps) (use r h closed eof in \<open>auto simp: ends_with_def\<close>)
    qed (subst read_headers.simps, use r h in simp)+
  qed
qed


lemma map_sum_Inr: "map_sum f g z = Inr y \<longleftrightarrow> (\<exists>x. z = Inr x \<and> g x = y)"
  by (cases z) auto

lemma response_segments:
  assumes "[] \<notin> set segs" "stopped tail"
  shows "map_option (map_sum id fst) (read_http_response_headers (map Bytes segs @ tail)) =
    (case header_end [] (concat segs) of
       Some h \<Rightarrow> Some (if utf8_valid h then Inr h else Inl Not_Utf8)
     | None \<Rightarrow> map_option Inl (stop_error tail))"
  using read_headers_segments [OF assms, of "[]" "[]"]
  by (cases "header_end [] (concat segs)"; cases "stop_error tail")
    (auto simp: read_http_response_headers_def map_sum_Inr split: option.splits sum.splits)

section \<open>The address\<close>

lemma split_once_append:
  assumes "c \<notin> set a"
  shows "split_once (c # p) (a @ (c # p) @ b) = Some (a, b)"
  using assms
proof (induction a)
  case Nil
  have "strip_prefix (c # p) ((c # p) @ b) = Some b" by (rule strip_prefix_append)
  then show ?case by simp
next
  case (Cons d a)
  from Cons.prems have "strip_prefix (c # p) (d # x) = None" for x by (auto simp: strip_prefix_def)
  with Cons show ?case by simp
qed

lemma split_next_app: "c \<notin> set a \<Longrightarrow> b = [] \<or> hd b = c \<Longrightarrow> split_next c (a @ b) = a"
  by (cases b) (auto simp: split_next_append split_next_none)

lemma strip_prefix_None: "strip_prefix p s = None \<longleftrightarrow> (\<forall>r. s \<noteq> p @ r)"
  using strip_prefix_Some [of p s] by (metis not_None_eq)

lemma contains_iff: "contains p s \<longleftrightarrow> (\<exists>a b. s = a @ p @ b)"
proof (induction s)
  case (Cons c s)
  have "(\<exists>a b. c # s = a @ p @ b) \<longleftrightarrow> (\<exists>b. c # s = p @ b) \<or> (\<exists>a b. s = a @ p @ b)"
    by (metis append_Cons append_Nil list.exhaust list.inject)
  moreover have "contains p (c # s) \<longleftrightarrow> strip_prefix p (c # s) \<noteq> None \<or> contains p s"
    by (auto simp: contains_def split: option.split)
  ultimately show ?case using Cons.IH by (simp add: strip_prefix_None)
qed (auto simp: contains_def)

lemma no_scheme:
  assumes "CHR '':'' \<notin> set host" "CHR '':'' \<notin> set path" "set digits \<subseteq> Collect is_digit" "digits \<noteq> []"
  shows "split_once ''://'' (host @ '':'' @ digits @ path) = None"
proof (rule ccontr)
  assume "split_once ''://'' (host @ '':'' @ digits @ path) \<noteq> None"
  then obtain a b where eq: "host @ '':'' @ digits @ path = a @ ''://'' @ b"
    using contains_iff [of "''://''"] unfolding contains_def by blast
  have digits: "CHR '':'' \<notin> set digits" "hd digits \<noteq> CHR ''/''"
    using assms(3) list.set_sel(1) [OF assms(4)] by auto
  have none: "filter ((=) CHR '':'') x = []" if "CHR '':'' \<notin> set x" for x
    using that by (auto simp: filter_empty_conv)
  have "length (filter ((=) CHR '':'') (host @ '':'' @ digits @ path)) = 1"
    using none [OF assms(1)] none [OF assms(2)] none [OF digits(1)] by simp
  then have "filter ((=) CHR '':'') a = []" unfolding eq by simp
  then have a: "CHR '':'' \<notin> set a" by (auto simp: filter_empty_conv)
  have "a = host" using arg_cong [OF eq, of "split_next CHR '':''"] assms(1) a
    by (simp add: split_next_append)
  with eq have "digits @ path = ''//'' @ b" by simp
  with digits(2) assms(4) show False by (cases digits) auto
qed

section \<open>Properties\<close>

text \<open>
  C33. A proxy URL with or without a scheme and a path gives back its host and its port.
\<close>

theorem proxy_addr_roundtrip:
  assumes "host \<noteq> []" "CHR ''/'' \<notin> set host" "path = [] \<or> hd path = CHR ''/''"
    and "prefix = scheme @ ''://'' \<and> CHR '':'' \<notin> set scheme
       \<or> prefix = [] \<and> CHR '':'' \<notin> set host \<and> CHR '':'' \<notin> set path"
  shows "parse_proxy_addr (prefix @ host @ '':'' @ show_nat (unat port) @ path) = Some (host, port)"
proof -
  let ?hp = "host @ '':'' @ show_nat (unat port)"
  have slash: "CHR ''/'' \<notin> set ?hp" using assms(2) show_nat_not_in by simp
  have colon: "CHR '':'' \<notin> set (show_nat (unat port))" by (rule show_nat_not_in) simp
  have parse: "parse_proxy_addr raw = Some (host, port)"
    if "(case split_once ''://'' raw of None \<Rightarrow> raw | Some (_, rest) \<Rightarrow> rest) = ?hp @ path" for raw
    using that split_next_app [OF slash assms(3)] rsplit_once_append [OF colon, of host] assms(1)
    by (simp add: parse_proxy_addr_def parse_u16_show)
  from assms(4) show ?thesis
  proof (elim disjE conjE)
    assume "prefix = scheme @ ''://''" "CHR '':'' \<notin> set scheme"
    then show ?thesis
      using split_once_append [of "CHR '':''" scheme "''//''" "?hp @ path"] by (intro parse) simp
  next
    assume none: "prefix = []" "CHR '':'' \<notin> set host" "CHR '':'' \<notin> set path"
    have "split_once ''://'' (?hp @ path) = None"
      using no_scheme [OF none(2,3), of "show_nat (unat port)"] show_nat_digits [of "unat port"] by simp
    with none(1) show ?thesis by (intro parse) simp
  qed
qed

theorem proxy_addr_roundtrip_witness:
  "parse_proxy_addr (''http://'' @ ''[::1]'' @ '':'' @ show_nat (unat (3128 :: u16)) @ ''/'') = Some (''[::1]'', 3128)"
  by (rule proxy_addr_roundtrip [of _ _ _ "''http''"]) simp_all

text \<open>
  C30. However the proxy's answer is cut into reads, the header text read is the shortest prefix
  of its bytes that ends in a blank line; without one the read is pending, or fails with the
  error that fits how the stream stopped.
\<close>

theorem response_any_segmentation:
  assumes "[] \<notin> set segs" "stopped tail"
  shows "map_option (map_sum id fst) (read_http_response_headers (map Bytes segs @ tail)) =
    (case header_end [] (concat segs) of
       Some h \<Rightarrow> Some (if utf8_valid h then Inr h else Inl Not_Utf8)
     | None \<Rightarrow> map_option Inl (stop_error tail))"
  using assms by (rule response_segments)

theorem response_any_segmentation_witness:
  "map_option (map_sum id fst) (read_http_response_headers
     (map Bytes [''OK'' @ [CHR 0x0D], [newline] @ CRLF @ ''x''] @ [Read_Error])) = Some (Inr (''OK'' @ CRLF @ CRLF))"
proof -
  have "header_end [] (concat [''OK'' @ [CHR 0x0D], [newline] @ CRLF @ ''x'']) = Some (''OK'' @ CRLF @ CRLF)"
    "utf8_valid (''OK'' @ CRLF @ CRLF)" by code_simp+
  then show ?thesis
    by (subst response_any_segmentation) simp_all
qed

lemma read_until_stops:
  assumes "r \<in> set reads" "r = Read_Error \<or> r = Bytes []"
  shows "\<exists>x. read_until held reads = Some x \<and>
    (\<forall>line held' reads'. x = Inr (line, held', reads') \<longrightarrow> r \<in> set reads')"
  using assms(1)
proof (induction held reads rule: read_until.induct)
  case (2 held q reads)
  show ?case
  proof (cases "newline \<in> set held")
    case False
    show ?thesis
    proof (cases q)
      case (Bytes s)
      show ?thesis
      proof (cases "s = []")
        case nonempty: False
        with 2(2) Bytes assms(2) have "r \<in> set reads" by auto
        from 2(1) [OF False Bytes nonempty this] False Bytes nonempty show ?thesis
          by (auto split: sum.splits)
      qed (use 2(2) False Bytes in auto)
    qed (use False in auto)
  qed (use 2(2) in auto)
qed simp

text \<open>
  C31. Reading the proxy's answer ends as soon as the proxy closes the stream or the socket
  fails, whatever came before: it cannot spin or wait on a dead peer.
\<close>

theorem header_read_terminates:
  assumes "r \<in> set reads" "r = Read_Error \<or> r = Bytes []"
  shows "\<exists>x. read_http_response_headers reads = Some x"
proof -
  have "\<exists>x. read_headers buf held reads = Some x" for buf held
    using assms(1)
  proof (induction buf held reads rule: read_headers.induct)
    case (1 buf held reads)
    from read_until_stops [OF 1(2) assms(2), of held] 1(1) show ?case
      by (subst read_headers.simps) (auto split: sum.splits)
  qed
  from this [of "[]" "[]"] show ?thesis
    by (auto simp: read_http_response_headers_def split: sum.splits)
qed

theorem header_read_terminates_witness:
  "\<exists>x. read_http_response_headers [Bytes ''HTTP'', Bytes [], Bytes ''x''] = Some x"
  by (rule header_read_terminates [of "Bytes []"]) simp_all

lemma first_line_append: "newline \<notin> set status \<Longrightarrow> first_line (status @ CRLF @ headers) = status"
  using split_next_append [of newline "status @ [CHR 0x0D]" headers]
  by (simp add: first_line_def CRLF_def)

text \<open>
  C32. With the proxy reachable, the handshake succeeds exactly when the first line of its
  complete, valid answer has \<open> 200 \<close> in it, and otherwise fails naming that line.
\<close>

theorem connect_by_status_line:
  assumes "[] \<notin> set segs" "newline \<notin> set status"
    and "header_end [] (concat segs) = Some (status @ CRLF @ headers)" "utf8_valid (status @ CRLF @ headers)"
  shows "\<exists>tunnel. connect_through_proxy \<lparr>io_connect = True, io_write = True, io_reads = map Bytes segs\<rparr> host port =
    (connect_request host port, Some (if contains '' 200 '' status then Inr tunnel else Inl (Refused status)))"
proof -
  from response_segments [OF assms(1), of "[]"] assms(3,4)
  obtain tunnel where "read_http_response_headers (map Bytes segs) = Some (Inr (status @ CRLF @ headers, tunnel))"
    by (auto simp: map_sum_Inr)
  then show ?thesis
    using assms(2) by (auto simp: connect_through_proxy_def first_line_append)
qed

theorem connect_by_status_line_witness:
  "\<exists>tunnel. connect_through_proxy \<lparr>io_connect = True, io_write = True,
       io_reads = map Bytes [''HTTP/1.1 200 OK'' @ CRLF, CRLF]\<rparr> ''h'' 443 = (connect_request ''h'' 443, Some (Inr tunnel))"
proof -
  have w: "header_end [] (concat [''HTTP/1.1 200 OK'' @ CRLF, CRLF]) = Some (''HTTP/1.1 200 OK'' @ CRLF @ CRLF)"
    "utf8_valid (''HTTP/1.1 200 OK'' @ CRLF @ CRLF)" "contains '' 200 '' ''HTTP/1.1 200 OK''" by code_simp+
  show ?thesis
    by (rule connect_by_status_line [OF _ _ w(1,2), unfolded if_P [OF w(3)]]) (simp_all add: CRLF_def)
qed

end
