(* ===== verification/Config.thy ===== *)
theory Config
  imports Exchange
begin

text \<open>
  \<open>src/config.rs\<close> and the start of \<open>main\<close> in \<open>src/main.rs\<close>: the settings read from the
  environment, the command line over them, and the outcome of the supervised tasks. The
  environment is the partial function of \<open>std::env::var\<close> (None where it is unset or not
  Unicode); \<open>Result\<close> is a sum with the error on the left.
\<close>

section \<open>Configuration\<close>

definition ENV_PREFIX :: string where
  "ENV_PREFIX = ''ORDERBOOK_''"

record config =
  cf_log_level :: string
  cf_host :: string
  cf_port :: u16
  cf_pair :: string

definition config_default :: config where
  "config_default = \<lparr>cf_log_level = ''info'', cf_host = ''127.0.0.1'', cf_port = 50051, cf_pair = ''ethbtc''\<rparr>"

datatype config_error = InvalidPort string

type_synonym env = "string \<Rightarrow> string option"

definition unwrap_or :: "'a option \<Rightarrow> 'a \<Rightarrow> 'a" where
  "unwrap_or x d = (case x of None \<Rightarrow> d | Some y \<Rightarrow> y)"

definition from_env :: "env \<Rightarrow> config_error + config" where
  "from_env var =
     (let defaults = config_default
      in case (case var (ENV_PREFIX @ ''PORT'') of
            None \<Rightarrow> Inr (cf_port defaults)
          | Some raw \<Rightarrow> (case parse_u16 raw of None \<Rightarrow> Inl (InvalidPort raw) | Some p \<Rightarrow> Inr p)) of
          Inl e \<Rightarrow> Inl e
        | Inr p \<Rightarrow> Inr \<lparr>cf_log_level = unwrap_or (var (ENV_PREFIX @ ''LOG_LEVEL'')) (cf_log_level defaults),
              cf_host = unwrap_or (var (ENV_PREFIX @ ''HOST'')) (cf_host defaults),
              cf_port = p,
              cf_pair = unwrap_or (var (ENV_PREFIX @ ''PAIR'')) (cf_pair defaults)\<rparr>)"

section \<open>The command line\<close>

record cli =
  cli_pair :: "string option"
  cli_port :: "u16 option"

definition override :: "cli \<Rightarrow> config \<Rightarrow> config" where
  "override cli c =
     (let c = (case cli_pair cli of None \<Rightarrow> c | Some p \<Rightarrow> c\<lparr>cf_pair := p\<rparr>)
      in case cli_port cli of None \<Rightarrow> c | Some p \<Rightarrow> c\<lparr>cf_port := p\<rparr>)"

definition main_config :: "cli \<Rightarrow> env \<Rightarrow> config_error + config" where
  "main_config cli var = (case from_env var of Inl e \<Rightarrow> Inl e | Inr c \<Rightarrow> Inr (override cli c))"

text \<open>The address that is parsed and bound.\<close>

definition bind_addr :: "config \<Rightarrow> string" where
  "bind_addr c = cf_host c @ '':'' @ show_nat (unat (cf_port c))"

section \<open>Supervision\<close>

datatype component = Feed venue | Aggregator | Server

text \<open>\<open>JoinSet::join_next\<close>: no task, a task's result, or a join error (a panic or not).\<close>

datatype 'e joined =
    Empty_Set
  | Ended component
  | Failed component 'e
  | Join_Error bool

fun failed_context :: "component \<Rightarrow> string" where
  "failed_context (Feed Binance) = ''Binance feed task failed''"
| "failed_context (Feed Bitstamp) = ''Bitstamp feed task failed''"
| "failed_context (Feed Kraken) = ''Kraken feed task failed''"
| "failed_context Aggregator = ''aggregator task failed''"
| "failed_context Server = ''server task failed''"

text \<open>The result of \<open>main\<close>: the context of its error and the task's error under it.\<close>

fun main_result :: "'e joined \<Rightarrow> (string \<times> 'e option) + unit" where
  "main_result Empty_Set = Inr ()"
| "main_result (Ended c) = Inr ()"
| "main_result (Failed c e) = Inl (failed_context c, Some e)"
| "main_result (Join_Error is_panic) =
     Inl (if is_panic then ''task panicked'' else ''task was cancelled'', None)"

lemma env_names:
  "ENV_PREFIX @ ''PORT'' = ''ORDERBOOK_PORT''" "ENV_PREFIX @ ''HOST'' = ''ORDERBOOK_HOST''"
  "ENV_PREFIX @ ''LOG_LEVEL'' = ''ORDERBOOK_LOG_LEVEL''" "ENV_PREFIX @ ''PAIR'' = ''ORDERBOOK_PAIR''"
  by (simp_all add: ENV_PREFIX_def)

definition settings :: "env \<Rightarrow> u16 \<Rightarrow> config" where
  "settings var p = \<lparr>cf_log_level = unwrap_or (var ''ORDERBOOK_LOG_LEVEL'') ''info'',
     cf_host = unwrap_or (var ''ORDERBOOK_HOST'') ''127.0.0.1'', cf_port = p,
     cf_pair = unwrap_or (var ''ORDERBOOK_PAIR'') ''ethbtc''\<rparr>"

lemma from_env_eq:
  "from_env var = (case var ''ORDERBOOK_PORT'' of
       None \<Rightarrow> Inr (settings var 50051)
     | Some raw \<Rightarrow> (case parse_u16 raw of None \<Rightarrow> Inl (InvalidPort raw) | Some p \<Rightarrow> Inr (settings var p)))"
  by (simp add: from_env_def env_names settings_def config_default_def Let_def split: option.split)

lemma override_settings:
  "override cli (settings var p) = \<lparr>cf_log_level = unwrap_or (var ''ORDERBOOK_LOG_LEVEL'') ''info'',
     cf_host = unwrap_or (var ''ORDERBOOK_HOST'') ''127.0.0.1'', cf_port = unwrap_or (cli_port cli) p,
     cf_pair = unwrap_or (cli_pair cli) (unwrap_or (var ''ORDERBOOK_PAIR'') ''ethbtc'')\<rparr>"
  by (cases "cli_port cli"; cases "cli_pair cli") (simp_all add: override_def settings_def unwrap_or_def)

section \<open>Properties\<close>

text \<open>
  Each setting comes from the command line where it is given, else from its own variable,
  else from the default, so the empty environment gives the default configuration; the process
  refuses to start exactly when \<open>ORDERBOOK_PORT\<close> is set to something that is not a port, and
  then names the offending text, whatever the command line says.
\<close>

lemma main_config_eq:
  "main_config cli var =
     (case (case var ''ORDERBOOK_PORT'' of None \<Rightarrow> Inr 50051 | Some raw \<Rightarrow>
              (case parse_u16 raw of None \<Rightarrow> Inl (InvalidPort raw) | Some p \<Rightarrow> Inr p)) of
        Inl e \<Rightarrow> Inl e
      | Inr p \<Rightarrow> Inr \<lparr>cf_log_level = unwrap_or (var ''ORDERBOOK_LOG_LEVEL'') ''info'',
               cf_host = unwrap_or (var ''ORDERBOOK_HOST'') ''127.0.0.1'',
               cf_port = unwrap_or (cli_port cli) p,
               cf_pair = unwrap_or (cli_pair cli) (unwrap_or (var ''ORDERBOOK_PAIR'') ''ethbtc'')\<rparr>)"
  by (simp add: main_config_def from_env_eq override_settings split: option.split)

end
