(* ===== verification/Feed_Driver.thy ===== *)
theory Feed_Driver
  imports Binance_Feed Bitstamp_Feed Kraken_Feed Reconnect Proxy Config
begin

text \<open>
  \<open>src/feed.rs\<close>, the driver: one connect-subscribe-read cycle and the loop that repeats it with
  backoff and a token bucket. The network is the list of what each await returns: the
  handshakes' results, the websocket events in order, the clock readings and the random
  multipliers. Where a list ends, the driver is still waiting. What a run does is its trace.
\<close>

section \<open>Where to connect\<close>

definition parse_connect_target :: "string \<Rightarrow> string \<times> u16" where
  "parse_connect_target url =
     (let without_scheme = unwrap_or (strip_prefix ''wss://'' url) url;
          authority = split_next CHR ''/'' without_scheme
      in case rsplit_once CHR '':'' authority of
           Some (host, port) \<Rightarrow> (host, unwrap_or (parse_u16 port) 443)
         | None \<Rightarrow> (authority, 443))"

definition proxy_addr :: "env \<Rightarrow> (string \<times> u16) option" where
  "proxy_addr var =
     (case (case var ''HTTPS_PROXY'' of Some raw \<Rightarrow> Some raw | None \<Rightarrow> var ''HTTP_PROXY'') of
        None \<Rightarrow> None
      | Some raw \<Rightarrow> if raw = [] then None else parse_proxy_addr raw)"

section \<open>One connection\<close>

datatype ws_message = Text string | Ping | Pong | Close | Binary | Frame

text \<open>
  What the read loop sees: a message (with the clock readings of its parse), a failed read, the
  end of the stream, or the idle timeout (with the success of the ping that follows).
\<close>

datatype ws_event = Received ws_message stamps | Read_Failed | Stream_End | Idle bool

datatype feed_error =
    Tunnel_Failed proxy_error
  | Connect_Failed
  | Subscribe_Not_Sent
  | Ping_Not_Sent
  | Websocket_Read_Failed

text \<open>The trace: dialling, text frames sent, books handed to the aggregator, sleeps.\<close>

datatype action = Attempt | Send string | Forward venue book | Sleep duration

record connection =
  cn_proxy :: proxy_io
  cn_handshake :: bool
  cn_connected_at :: instant
  cn_subscribed :: bool
  cn_events :: "ws_event list"

definition dial :: "env \<Rightarrow> string \<Rightarrow> connection \<Rightarrow> (feed_error + unit) option" where
  "dial var url cn =
     (let handshake = (if cn_handshake cn then Inr () else Inl Connect_Failed)
      in case proxy_addr var of
           None \<Rightarrow> Some handshake
         | Some _ \<Rightarrow>
             let (target_host, target_port) = parse_connect_target url
             in case snd (connect_through_proxy (cn_proxy cn) target_host target_port) of
                  None \<Rightarrow> None
                | Some (Inl e) \<Rightarrow> Some (Inl (Tunnel_Failed e))
                | Some (Inr _) \<Rightarrow> Some handshake)"

definition kraken_idle_ping :: "venue \<Rightarrow> duration option" where
  "kraken_idle_ping v = (if v = Kraken then Some (from_secs 30) else None)"

definition PING :: string where
  \<open>PING = ''{"method":"ping"}''\<close>

text \<open>The read loop; its result is None while it waits for the next event.\<close>

fun read_loop :: "'s exchange \<Rightarrow> 's \<Rightarrow> ws_event list \<Rightarrow>
    ('s \<times> action list \<times> (feed_error + unit) option) outcome" where
  "read_loop ex s [] = Done (s, [], None)"
| "read_loop ex s (Idle sent # es) =
     (case kraken_idle_ping (ex_venue ex) of
        None \<Rightarrow> read_loop ex s es
      | Some _ \<Rightarrow>
          if sent then bind_outcome (read_loop ex s es) (\<lambda>(s', out, res). Done (s', Send PING # out, res))
          else Done (s, [], Some (Inl Ping_Not_Sent)))"
| "read_loop ex s (Stream_End # es) = Done (s, [], Some (Inr ()))"
| "read_loop ex s (Read_Failed # es) = Done (s, [], Some (Inl Websocket_Read_Failed))"
| "read_loop ex s (Received (Text raw) t # es) =
     bind_outcome (ex_parse ex s raw t) (\<lambda>(s', r).
       bind_outcome (read_loop ex s' es) (\<lambda>(s'', out, res).
         Done (s'', (case r of None \<Rightarrow> out | Some b \<Rightarrow> Forward (ex_venue ex) b # out), res)))"
| "read_loop ex s (Received Close t # es) = Done (s, [], Some (Inr ()))"
| "read_loop ex s (Received Ping t # es) = read_loop ex s es"
| "read_loop ex s (Received Pong t # es) = read_loop ex s es"
| "read_loop ex s (Received Binary t # es) = read_loop ex s es"
| "read_loop ex s (Received Frame t # es) = read_loop ex s es"

definition run_once_inner :: "'s exchange \<Rightarrow> env \<Rightarrow> string \<Rightarrow> 's \<Rightarrow> connection \<Rightarrow>
    ('s \<times> action list \<times> (instant option \<times> feed_error + instant) option) outcome" where
  "run_once_inner ex var pair s cn =
     (case dial var (ex_connect_url ex pair) cn of
        None \<Rightarrow> Done (s, [Attempt], None)
      | Some (Inl e) \<Rightarrow> Done (s, [Attempt], Some (Inl (None, e)))
      | Some (Inr _) \<Rightarrow>
          let connected_at = cn_connected_at cn;
              subscribe = (case ex_subscribe_message ex pair of None \<Rightarrow> [] | Some msg \<Rightarrow> [Send msg])
          in if subscribe \<noteq> [] \<and> \<not> cn_subscribed cn
             then Done (s, [Attempt], Some (Inl (Some connected_at, Subscribe_Not_Sent)))
             else bind_outcome (read_loop ex s (cn_events cn)) (\<lambda>(s', out, res).
               Done (s', Attempt # subscribe @ out, map_option (\<lambda>r. case r of
                 Inl e \<Rightarrow> Inl (Some connected_at, e) | Inr _ \<Rightarrow> Inr connected_at) res)))"

definition run_once :: "'s exchange \<Rightarrow> env \<Rightarrow> string \<Rightarrow> 's \<Rightarrow> connection \<Rightarrow>
    ('s \<times> action list \<times> (instant option \<times> (feed_error + unit)) option) outcome" where
  "run_once ex var pair s cn =
     bind_outcome (run_once_inner ex var pair s cn) (\<lambda>(s', out, res).
       Done (s', out, map_option (\<lambda>r. case r of
         Inr connected_at \<Rightarrow> (Some connected_at, Inr ())
       | Inl (connected_at, e) \<Rightarrow> (connected_at, Inl e)) res))"

section \<open>The loop\<close>

text \<open>One turn: the connection, the clock when it ended, the multiplier, the bucket's clock.\<close>

record cycle =
  cy_connection :: connection
  cy_now :: instant
  cy_multiplier :: f64
  cy_clock :: "instant list"

fun run_feed_loop :: "'s exchange \<Rightarrow> env \<Rightarrow> string \<Rightarrow> 's \<Rightarrow> backoff \<Rightarrow> token_bucket \<Rightarrow> cycle list \<Rightarrow>
    ('s \<times> action list) outcome" where
  "run_feed_loop ex var pair s backoff bucket [] = Done (s, [])"
| "run_feed_loop ex var pair s backoff bucket (cy # cys) =
     bind_outcome (run_once ex var pair s (cy_connection cy)) (\<lambda>(s', out, res).
       case res of
         None \<Rightarrow> Done (s', out)
       | Some (connected_at, result) \<Rightarrow>
           let backoff = (case connected_at of
                 None \<Rightarrow> backoff | Some t \<Rightarrow> reset_if_stable backoff t (cy_now cy));
               (backoff, delay) = next_delay backoff
           in bind_outcome (jittered (cy_multiplier cy) delay) (\<lambda>wait.
                bind_outcome (acquire bucket (cy_clock cy)) (\<lambda>(bucket, waits, acquired).
                  let out = out @ map Sleep (wait # waits)
                  in if acquired
                     then bind_outcome (run_feed_loop ex var pair s' backoff bucket cys) (\<lambda>(s'', out').
                            Done (s'', out @ out'))
                     else Done (s', out))))"

definition run_feed :: "'s exchange \<Rightarrow> env \<Rightarrow> string \<Rightarrow> 's \<Rightarrow> instant \<Rightarrow> cycle list \<Rightarrow>
    ('s \<times> action list) outcome" where
  "run_feed ex var pair s started_at cys =
     (let (capacity, refill_per_sec) = connect_rate (ex_venue ex)
      in run_feed_loop ex var pair s backoff_new (token_bucket_new capacity refill_per_sec started_at) cys)"

section \<open>What a trace holds\<close>

fun forwards :: "action list \<Rightarrow> (venue \<times> book) list" where
  "forwards [] = []"
| "forwards (Forward v b # out) = (v, b) # forwards out"
| "forwards (a # out) = forwards out"

fun sends :: "action list \<Rightarrow> string list" where
  "sends [] = []"
| "sends (Send m # out) = m # sends out"
| "sends (a # out) = sends out"

definition attempts :: "action list \<Rightarrow> nat" where
  "attempts out = length (filter (\<lambda>a. a = Attempt) out)"

fun sleeps_within :: "duration \<Rightarrow> action \<Rightarrow> bool" where
  "sleeps_within d (Sleep w) = (w \<le> d)"
| "sleeps_within d _ = True"

lemma forwards_append [simp]: "forwards (a @ b) = forwards a @ forwards b"
  by (induction a rule: forwards.induct) simp_all

lemma sends_append [simp]: "sends (a @ b) = sends a @ sends b"
  by (induction a rule: sends.induct) simp_all

lemma attempts_simps [simp]:
  "attempts [] = 0" "attempts (Attempt # out) = Suc (attempts out)" "attempts (Send m # out) = attempts out"
  "attempts (Forward v b # out) = attempts out" "attempts (Sleep d # out) = attempts out"
  "attempts (xs @ ys) = attempts xs + attempts ys"
  by (simp_all add: attempts_def)

lemma attempts_sleeps [simp]: "attempts (map Sleep ds) = 0"
  by (simp add: attempts_def filter_empty_conv)

lemma sleeps_within_sleeps [simp]:
  "list_all (sleeps_within d) (map Sleep ds) \<longleftrightarrow> list_all (\<lambda>w. w \<le> d) ds"
  by (simp add: list_all_iff)

section \<open>The read loop\<close>

text \<open>The events that end a connection on \<open>v\<close>.\<close>

fun ends_read :: "venue \<Rightarrow> ws_event \<Rightarrow> bool" where
  "ends_read v Stream_End = True"
| "ends_read v Read_Failed = True"
| "ends_read v (Idle sent) = (kraken_idle_ping v \<noteq> None \<and> \<not> sent)"
| "ends_read v (Received m t) = (m = Close)"

text \<open>The texts received before one of them.\<close>

fun texts :: "venue \<Rightarrow> ws_event list \<Rightarrow> (string \<times> stamps) list" where
  "texts v [] = []"
| "texts v (e # es) =
     (if ends_read v e then []
      else case e of Received (Text raw) t \<Rightarrow> (raw, t) # texts v es | _ \<Rightarrow> texts v es)"

lemma read_loop_parse_all:
  "bind_outcome (read_loop ex s es) (\<lambda>(s', out, res). Done (s', forwards out)) =
   bind_outcome (parse_all ex s (texts (ex_venue ex) es)) (\<lambda>(s', rs).
     Done (s', map (Pair (ex_venue ex)) (List.map_filter id rs)))"
proof (induction ex s es rule: read_loop.induct)
  case (2 ex s sent es)
  then show ?case
    by (cases "kraken_idle_ping (ex_venue ex)"; cases sent; cases "read_loop ex s es")
      (auto simp: List.map_filter_simps split: prod.splits outcome.splits)
next
  case (5 ex s raw t es)
  show ?case
  proof (cases "ex_parse ex s raw t")
    case (Done p)
    obtain s' r where p: "p = (s', r)" by (cases p)
    from 5 [of s'] Done show ?thesis
      by (cases "read_loop ex s' es"; cases "parse_all ex s' (texts (ex_venue ex) es)"; cases r)
        (auto simp: p List.map_filter_simps)
  qed simp
qed (simp_all add: List.map_filter_simps)

lemma read_loop_ends:
  "read_loop ex s es = Done (s', out, res) \<Longrightarrow> res = None \<longleftrightarrow> \<not> list_ex (ends_read (ex_venue ex)) es"
proof (induction ex s es arbitrary: s' out res rule: read_loop.induct)
  case (2 ex s sent es)
  then show ?case
    by (cases "kraken_idle_ping (ex_venue ex)"; cases sent)
      (auto elim!: bind_outcome_DoneE)
next
  case (5 ex s raw t es)
  from 5(2) show ?case by (auto elim!: bind_outcome_DoneE dest: 5(1) [rotated])
qed auto

text \<open>No dialling and no sleeping; the frames sent are pings, on Kraken only.\<close>

lemma read_loop_trace:
  "read_loop ex s es = Done (s', out, res) \<Longrightarrow>
     attempts out = 0 \<and> list_all (sleeps_within d) out
     \<and> (\<exists>n. sends out = replicate n PING \<and> (ex_venue ex \<noteq> Kraken \<longrightarrow> n = 0))"
proof (induction ex s es arbitrary: s' out res rule: read_loop.induct)
  case (2 ex s sent es)
  show ?case
  proof (cases "kraken_idle_ping (ex_venue ex)")
    case None
    with 2(1) [OF None] 2(3) show ?thesis by simp
  next
    case (Some idle)
    then have k: "ex_venue ex = Kraken" by (simp add: kraken_idle_ping_def split: if_splits)
    show ?thesis
    proof (cases sent)
      case True
      with 2(3) Some obtain out' where r: "read_loop ex s es = Done (s', out', res)" "out = Send PING # out'"
        by (auto elim!: bind_outcome_DoneE)
      from 2(2) [OF Some True r(1)] obtain n where "attempts out' = 0" "list_all (sleeps_within d) out'"
        "sends out' = replicate n PING" by blast
      with r(2) k show ?thesis by (auto intro!: exI [of _ "Suc n"])
    qed (use 2(3) Some k in auto)
  qed
next
  case (5 ex s raw t es)
  from 5(2) obtain s1 r out' where p: "ex_parse ex s raw t = Done (s1, r)"
    "read_loop ex s1 es = Done (s', out', res)"
    "out = (case r of None \<Rightarrow> out' | Some b \<Rightarrow> Forward (ex_venue ex) b # out')"
    by (auto elim!: bind_outcome_DoneE)
  from 5(1) [OF p(2)] p(3) show ?case by (auto split: option.split)
qed auto

section \<open>Every run returns\<close>

text \<open>The range of \<open>rand::random_range(0.5..1.5)\<close>.\<close>

definition jitter_range :: "cycle \<Rightarrow> bool" where
  "jitter_range cy \<longleftrightarrow> fle f64_half (cy_multiplier cy) \<and> fle (cy_multiplier cy) f64_three_halves"

text \<open>The connection comes to an end, and the clock moves on by two seconds somewhere.\<close>

definition cycle_ends :: "'s exchange \<Rightarrow> env \<Rightarrow> string \<Rightarrow> cycle \<Rightarrow> bool" where
  "cycle_ends ex var pair cy \<longleftrightarrow>
     dial var (ex_connect_url ex pair) (cy_connection cy) \<noteq> None
     \<and> list_ex (ends_read (ex_venue ex)) (cn_events (cy_connection cy))
     \<and> \<not> successively (\<lambda>t t'. duration_since t' t < from_secs 2) (cy_clock cy)"

lemma successively_Cons_D: "successively P (x # xs) \<Longrightarrow> successively P xs"
  by (cases xs) auto

context exchange_contract
begin

lemma read_loop_done:
  "inv s \<Longrightarrow> \<exists>s' out res. read_loop ex s es = Done (s', out, res) \<and> inv s'"
proof (induction es arbitrary: s)
  case (Cons e es)
  show ?case
  proof (cases e)
    case (Received m t)
    show ?thesis
    proof (cases m)
      case (Text raw)
      obtain s' r where p: "ex_parse ex s raw t = Done (s', r)" "inv s'"
        using Cons.prems by (rule parse_cases)
      from Cons.IH [OF p(2)] p(1) show ?thesis by (auto simp: Received Text)
    qed (use Cons Received in auto)
  next
    case (Idle sent)
    with Cons.IH [OF Cons.prems] Cons.prems show ?thesis
      by (auto split: option.split)
  qed (use Cons.prems in auto)
qed simp

lemma run_once_done:
  assumes "inv s"
  shows "\<exists>s' out res. run_once ex var pair s cn = Done (s', out, res) \<and> inv s' \<and> attempts out = 1
    \<and> list_all (sleeps_within d) out
    \<and> (res = None \<longrightarrow> dial var (ex_connect_url ex pair) cn = None
         \<or> \<not> list_ex (ends_read (ex_venue ex)) (cn_events cn))"
proof -
  obtain s' out res where r: "read_loop ex s (cn_events cn) = Done (s', out, res)" "inv s'"
    using read_loop_done [OF assms] by blast
  note t = read_loop_trace [OF r(1), of d] and e = read_loop_ends [OF r(1)]
  show ?thesis
    using assms r t e unfolding run_once_def run_once_inner_def Let_def
    by (cases "dial var (ex_connect_url ex pair) cn"; cases "ex_subscribe_message ex pair"; cases "cn_subscribed cn")
      (auto split: sum.split)
qed

lemma run_feed_loop_done:
  "inv s \<Longrightarrow> bucket_ok bucket \<Longrightarrow> list_all jitter_range cys \<Longrightarrow>
     \<exists>s' out. run_feed_loop ex var pair s backoff bucket cys = Done (s', out) \<and> inv s'
       \<and> list_all (sleeps_within (from_secs 45)) out
       \<and> (list_all (cycle_ends ex var pair) cys \<longrightarrow> attempts out = length cys)"
proof (induction cys arbitrary: s backoff bucket)
  case (Cons cy cys)
  obtain s1 out res where o: "run_once ex var pair s (cy_connection cy) = Done (s1, out, res)" "inv s1"
    "attempts out = 1" "list_all (sleeps_within (from_secs 45)) out"
    "res = None \<Longrightarrow> \<not> cycle_ends ex var pair cy"
    using run_once_done [OF Cons.prems(1), of var pair "cy_connection cy" "from_secs 45"]
    by (auto simp: cycle_ends_def)
  show ?case
  proof (cases res)
    case None
    with o show ?thesis by auto
  next
    case (Some r)
    obtain ca result where r: "r = (ca, result)" by (cases r)
    define b where "b = (case ca of None \<Rightarrow> backoff | Some t \<Rightarrow> reset_if_stable backoff t (cy_now cy))"
    obtain b' delay where n: "next_delay b = (b', delay)" by (cases "next_delay b")
    obtain w where w: "jittered (cy_multiplier cy) delay = Done w" "w \<le> from_secs 45"
      using jittered_ok [of "cy_multiplier cy" b] Cons.prems(3) n by (auto simp: jitter_range_def)
    obtain bk ws got where a: "acquire bucket (cy_clock cy) = Done (bk, ws, got)" "bucket_ok bk"
      "list_all (\<lambda>w. w \<le> from_secs 2) ws"
      using acquire_ok [OF Cons.prems(2), of "cy_clock cy"] by blast
    have ws: "list_all (\<lambda>w. w \<le> from_secs 45) ws"
      using a(3) by (rule list.pred_mono_strong) (simp add: from_secs_def)
    have got: "got" if "cycle_ends ex var pair cy"
      using acquire_got [OF Cons.prems(2), of "cy_clock cy"] that a(1)
      by (auto simp: cycle_ends_def dest: successively_Cons_D)
    obtain s2 out' where l: "run_feed_loop ex var pair s1 b' bk cys = Done (s2, out')" "inv s2"
      "list_all (sleeps_within (from_secs 45)) out'"
      "list_all (cycle_ends ex var pair) cys \<Longrightarrow> attempts out' = length cys"
      using Cons.IH [OF o(2) a(2), of b'] Cons.prems(3) by auto
    have "run_feed_loop ex var pair s backoff bucket (cy # cys) =
        (if got then Done (s2, out @ map Sleep (w # ws) @ out') else Done (s1, out @ map Sleep (w # ws)))"
      using o(1) w(1) a(1) l(1) n by (simp add: Some r b_def Let_def)
    with o ws w(2) l got show ?thesis by (cases got) auto
  qed
qed simp

lemma run_feed_done:
  assumes "list_all jitter_range cys"
  shows "\<exists>s' out. run_feed ex var pair init started_at cys = Done (s', out)
       \<and> list_all (sleeps_within (from_secs 45)) out
       \<and> (list_all (cycle_ends ex var pair) cys \<longrightarrow> attempts out = length cys)"
proof -
  let ?bucket = "token_bucket_new (fst (connect_rate (ex_venue ex))) (snd (connect_rate (ex_venue ex))) started_at"
  have "run_feed ex var pair init started_at cys = run_feed_loop ex var pair init backoff_new ?bucket cys"
    by (simp add: run_feed_def split: prod.split)
  moreover have "bucket_ok ?bucket" by (rule token_bucket_new_ok)
  ultimately show ?thesis using run_feed_loop_done [OF inv_init _ assms] by metis
qed

end

section \<open>Connections that do not last\<close>

text \<open>The first sleep after each dialling: the backoff, before the waits for a token.\<close>

fun backoff_sleeps :: "bool \<Rightarrow> action list \<Rightarrow> duration list" where
  "backoff_sleeps pending [] = []"
| "backoff_sleeps pending (Attempt # out) = backoff_sleeps True out"
| "backoff_sleeps pending (Sleep d # out) =
     (if pending then d # backoff_sleeps False out else backoff_sleeps False out)"
| "backoff_sleeps pending (Send m # out) = backoff_sleeps pending out"
| "backoff_sleeps pending (Forward v b # out) = backoff_sleeps pending out"

definition unstable :: "cycle \<Rightarrow> bool" where
  "unstable cy \<longleftrightarrow>
     duration_since (cy_now cy) (cn_connected_at (cy_connection cy)) \<le> STABILITY_WINDOW"

definition in_band :: "duration \<Rightarrow> duration \<Rightarrow> bool" where
  "in_band w d \<longleftrightarrow> d div 2 \<le> w \<and> w \<le> d div 2 * 3"

lemma backoff_sleeps_sleeps: "backoff_sleeps False (map Sleep ws @ out) = backoff_sleeps False out"
  by (induction ws) simp_all

fun no_sleep :: "action \<Rightarrow> bool" where
  "no_sleep (Sleep d) = False"
| "no_sleep a = True"

lemma backoff_sleeps_quiet:
  "list_all no_sleep xs \<Longrightarrow> backoff_sleeps True (xs @ out) = backoff_sleeps True out"
proof (induction xs)
  case (Cons x xs)
  then show ?case by (cases x) simp_all
qed simp

lemma read_loop_no_sleep: "read_loop ex s es = Done (s', out, res) \<Longrightarrow> list_all no_sleep out"
proof (induction ex s es arbitrary: s' out res rule: read_loop.induct)
  case (2 ex s sent es)
  then show ?case
    by (cases "kraken_idle_ping (ex_venue ex)"; cases sent) (auto elim!: bind_outcome_DoneE)
next
  case (5 ex s raw t es)
  from 5(2) show ?case by (auto elim!: bind_outcome_DoneE dest: 5(1) split: option.split)
qed auto

text \<open>One turn dials first, and reports the instant the connection came up, if any.\<close>

lemma run_once_shape:
  assumes "run_once ex var pair s cn = Done (s', out, res)"
  obtains xs where "out = Attempt # xs" "list_all no_sleep xs"
    "\<And>t r. res = Some (Some t, r) \<Longrightarrow> t = cn_connected_at cn"
proof -
  have "\<exists>xs. out = Attempt # xs \<and> list_all no_sleep xs \<and> (\<forall>t r. res = Some (Some t, r) \<longrightarrow> t = cn_connected_at cn)"
    using assms unfolding run_once_def run_once_inner_def Let_def
    by (cases "dial var (ex_connect_url ex pair) cn"; cases "ex_subscribe_message ex pair")
      (auto elim!: bind_outcome_DoneE dest!: read_loop_no_sleep split: sum.splits if_splits)
  with that show ?thesis by blast
qed

lemma run_feed_loop_bands:
  "run_feed_loop ex var pair s backoff bucket cys = Done (s', out) \<Longrightarrow> list_all jitter_range cys \<Longrightarrow>
     list_all unstable cys \<Longrightarrow>
     list_all2 in_band (backoff_sleeps False out) (delays (length (backoff_sleeps False out)) backoff)"
proof (induction cys arbitrary: s backoff bucket s' out)
  case (Cons cy cys)
  obtain s1 o1 res where o: "run_once ex var pair s (cy_connection cy) = Done (s1, o1, res)"
    using Cons.prems(1) by (auto elim!: bind_outcome_DoneE)
  obtain xs where xs: "o1 = Attempt # xs" "list_all no_sleep xs"
    "\<And>t r. res = Some (Some t, r) \<Longrightarrow> t = cn_connected_at (cy_connection cy)"
    using run_once_shape [OF o] by blast
  note quiet = backoff_sleeps_quiet [OF xs(2)]
  show ?case
  proof (cases res)
    case None
    with Cons.prems(1) o have "out = Attempt # xs" by (simp add: xs(1))
    with quiet [of "[]"] show ?thesis by simp
  next
    case (Some r)
    obtain ca result where r: "r = (ca, result)" by (cases r)
    have same: "(case ca of None \<Rightarrow> backoff | Some t \<Rightarrow> reset_if_stable backoff t (cy_now cy)) = backoff"
    proof (cases ca)
      case up: (Some t)
      with Some r have "t = cn_connected_at (cy_connection cy)" by (intro xs(3) [of _ result]) simp
      with Cons.prems(3) up show ?thesis by (simp add: unstable_def reset_if_stable_def)
    qed simp
    obtain b' delay where n: "next_delay backoff = (b', delay)" by (cases "next_delay backoff")
    obtain w where w: "jittered (cy_multiplier cy) delay = Done w" "in_band w delay"
      using jittered_ok [of "cy_multiplier cy" backoff] Cons.prems(2) n
      by (auto simp: jitter_range_def in_band_def)
    have step: "bind_outcome (acquire bucket (cy_clock cy)) (\<lambda>(bk, ws, got).
        if got then bind_outcome (run_feed_loop ex var pair s1 b' bk cys) (\<lambda>(s'', out').
               Done (s'', o1 @ map Sleep (w # ws) @ out'))
        else Done (s1, o1 @ map Sleep (w # ws))) = Done (s', out)"
      using Cons.prems(1) by (simp add: o Some r same n w(1) Let_def case_prod_beta cong: if_cong)
    then obtain bk ws got where a: "acquire bucket (cy_clock cy) = Done (bk, ws, got)"
      by (auto elim!: bind_outcome_DoneE)
    show ?thesis
    proof (cases got)
      case True
      with step a obtain o2 where
        l: "run_feed_loop ex var pair s1 b' bk cys = Done (s', o2)" "out = o1 @ map Sleep (w # ws) @ o2"
        by (auto elim!: bind_outcome_DoneE)
      have "backoff_sleeps False out = w # backoff_sleeps False o2"
        by (simp add: l(2) xs(1) quiet backoff_sleeps_sleeps)
      with Cons.IH [OF l(1)] Cons.prems(2,3) w(2) n show ?thesis by simp
    next
      case False
      with step a have "out = o1 @ map Sleep (w # ws)" by simp
      then have "backoff_sleeps False out = [w]"
        using backoff_sleeps_sleeps [of ws "[]"] by (simp add: xs(1) quiet)
      with w(2) n show ?thesis by simp
    qed
  qed
qed simp

text \<open>A connection that brings one text and then fails, used to witness the properties.\<close>

definition example_cycle :: cycle where
  "example_cycle = \<lparr>cy_connection = \<lparr>cn_proxy = \<lparr>io_connect = False, io_write = False, io_reads = []\<rparr>,
     cn_handshake = True, cn_connected_at = 1, cn_subscribed = True,
     cn_events = [Received (Text ''x'') (2, 3), Read_Failed]\<rparr>, cy_now = 4, cy_multiplier = f64_one,
     cy_clock = [5, 3000000000]\<rparr>"

lemma example_range: "jitter_range example_cycle"
proof -
  have "fle f64_half f64_one" "fle f64_one f64_three_halves" by code_simp+
  then show ?thesis by (simp add: jitter_range_def example_cycle_def)
qed

lemma example_ends: "cycle_ends ex (\<lambda>_. None) pair example_cycle"
  by (simp add: cycle_ends_def example_cycle_def dial_def proxy_addr_def Let_def duration_since_def from_secs_def)

lemma example_unstable: "unstable example_cycle"
  by (simp add: unstable_def example_cycle_def duration_since_def STABILITY_WINDOW_def from_secs_def)

section \<open>Properties\<close>

text \<open>
  C25. No input whatever makes a feed task panic: neither texts the venue may send, nor
  dropped, refused or idle connections, nor the proxy's answers, nor the clock, as long as the
  random multipliers are in their range.
\<close>

theorem feeds_never_panic:
  assumes "list_all jitter_range cys"
  shows "run_feed (binance de) var pair () started_at cys \<noteq> Panic
    \<and> run_feed (bitstamp de') var pair () started_at cys \<noteq> Panic
    \<and> run_feed (kraken env) var pair kraken_new started_at cys \<noteq> Panic"
  using binance.run_feed_done [OF assms] bitstamp.run_feed_done [OF assms] kraken.run_feed_done [OF assms]
  by (metis outcome.distinct(1))

theorem feeds_never_panic_witness:
  "run_feed (kraken \<lparr>ke_peek = \<lambda>_. None, ke_message = \<lambda>_. None, ke_crc32 = \<lambda>_. 0\<rparr>) (\<lambda>_. None) ''ethbtc''
     kraken_new 0 [example_cycle] \<noteq> Panic"
  using feeds_never_panic [of "[example_cycle]"] by (simp add: example_range)

text \<open>
  C26. A feed never stops reconnecting: when each of its connections comes to an end and the
  clock moves on, it dials once for every connection, and no single sleep between two dials
  is longer than 45 seconds.
\<close>

theorem feeds_keep_reconnecting:
  assumes "list_all jitter_range cys"
  shows "(list_all (cycle_ends (binance de) var pair) cys \<longrightarrow>
      (\<exists>s out. run_feed (binance de) var pair () t0 cys = Done (s, out)
        \<and> attempts out = length cys \<and> list_all (sleeps_within (from_secs 45)) out))
    \<and> (list_all (cycle_ends (bitstamp de') var pair) cys \<longrightarrow>
      (\<exists>s out. run_feed (bitstamp de') var pair () t0 cys = Done (s, out)
        \<and> attempts out = length cys \<and> list_all (sleeps_within (from_secs 45)) out))
    \<and> (list_all (cycle_ends (kraken env) var pair) cys \<longrightarrow>
      (\<exists>s out. run_feed (kraken env) var pair kraken_new t0 cys = Done (s, out)
        \<and> attempts out = length cys \<and> list_all (sleeps_within (from_secs 45)) out))"
  using binance.run_feed_done [OF assms] bitstamp.run_feed_done [OF assms] kraken.run_feed_done [OF assms]
  by metis

theorem feeds_keep_reconnecting_witness:
  "\<exists>s out. run_feed (binance (\<lambda>_. None)) (\<lambda>_. None) ''ethbtc'' () 0 [example_cycle, example_cycle] = Done (s, out)
     \<and> attempts out = 2 \<and> list_all (sleeps_within (from_secs 45)) out"
  using feeds_keep_reconnecting [of "[example_cycle, example_cycle]" "\<lambda>_. None" "\<lambda>_. None" "''ethbtc''"]
  by (simp add: example_range example_ends numeral_2_eq_2)

text \<open>
  C27. One connection hands the aggregator exactly the books that parsing its texts in order
  yields, up to the event that ends it: nothing is dropped, repeated or reordered.
\<close>

theorem feed_forwards_parsed_books:
  "bind_outcome (read_loop ex s es) (\<lambda>(s', out, res). Done (s', forwards out)) =
   bind_outcome (parse_all ex s (texts (ex_venue ex) es)) (\<lambda>(s', rs).
     Done (s', map (Pair (ex_venue ex)) (List.map_filter id rs)))"
  by (rule read_loop_parse_all)

text \<open>
  C28. While no connection outlasts the stability window, the feed backs off on the schedule:
  its \<open>i\<close>-th retry waits between half and one and a half times \<open>min (2\<^sup>i) 30\<close> seconds,
  whether the connections were refused or dropped at once.
\<close>

theorem unstable_connections_back_off:
  assumes "run_feed ex var pair s t0 cys = Done (s', out)"
    and "list_all jitter_range cys" "list_all unstable cys"
  shows "list_all2 in_band (backoff_sleeps False out)
    (map (\<lambda>i. from_secs (min (2 ^ i) 30)) [0 ..< length (backoff_sleeps False out)])"
  using run_feed_loop_bands [OF _ assms(2,3)] assms(1) unfolding delays_new [symmetric]
  by (auto simp: run_feed_def split: prod.splits)

theorem unstable_connections_back_off_witness:
  "\<exists>s out. run_feed (binance (\<lambda>_. None)) (\<lambda>_. None) ''ethbtc'' () 0 [example_cycle, example_cycle] = Done (s, out)
     \<and> list_all2 in_band (backoff_sleeps False out)
         (map (\<lambda>i. from_secs (min (2 ^ i) 30)) [0 ..< length (backoff_sleeps False out)])"
  using binance.run_feed_done [of "[example_cycle, example_cycle]"]
    unstable_connections_back_off [of "binance (\<lambda>_. None)" _ _ _ _ "[example_cycle, example_cycle]"]
  by (simp add: example_range example_unstable) metis

text \<open>
  Through a proxy, the tunnel is asked for the host and port of the venue's own URL,
  whatever the pair: 443 where the URL names no port.
\<close>

lemma venue_connect_targets:
  "parse_connect_target (binance_connect_url pair) = (''stream.binance.com'', 9443)
   \<and> parse_connect_target (bitstamp_connect_url pair) = (''ws.bitstamp.net'', 443)
   \<and> parse_connect_target (kraken_connect_url pair) = (''ws.kraken.com'', 443)"
proof -
  have auth: "split_next CHR ''/'' (a @ b) = a" if "CHR ''/'' \<notin> set a" "hd b = CHR ''/''" for a b
    using that by (cases b) (simp_all add: split_next_append split_next_none)
  have "HOST @ '':'' @ show_nat (unat PORT) = ''stream.binance.com:9443''" by code_simp
  then have url: "binance_connect_url pair =
      ''wss://'' @ ''stream.binance.com:9443'' @ ''/ws/'' @ to_lowercase pair @ ''@depth20@100ms''"
    by (simp add: binance_connect_url_def)
  have "parse_connect_target (binance_connect_url pair) = (''stream.binance.com'', unwrap_or (parse_u16 ''9443'') 443)"
    unfolding url parse_connect_target_def strip_prefix_append Let_def
    by (simp add: unwrap_or_def auth [of "''stream.binance.com:9443''", simplified])
  moreover have "unwrap_or (parse_u16 ''9443'') 443 = 9443"
    "parse_connect_target (bitstamp_connect_url []) = (''ws.bitstamp.net'', 443)"
    "parse_connect_target (kraken_connect_url []) = (''ws.kraken.com'', 443)" by code_simp+
  ultimately show ?thesis by (simp add: bitstamp_connect_url_def kraken_connect_url_def)
qed

text \<open>
  C29. On every connection that comes up, the subscription of the venue (if it has one) is the
  first frame sent, before any book is handed on; all later frames are Kraken's pings, and
  other venues send none.
\<close>

theorem frames_sent:
  assumes "run_once ex var pair s cn = Done (s', out, Some (Some t, r))" "r \<noteq> Inl Subscribe_Not_Sent"
  shows "\<exists>xs n. out = Attempt # map Send (case ex_subscribe_message ex pair of None \<Rightarrow> [] | Some msg \<Rightarrow> [msg]) @ xs
    \<and> sends xs = replicate n PING \<and> (ex_venue ex \<noteq> Kraken \<longrightarrow> n = 0)"
  using assms unfolding run_once_def run_once_inner_def Let_def
  by (cases "dial var (ex_connect_url ex pair) cn"; cases "ex_subscribe_message ex pair")
    (auto elim!: bind_outcome_DoneE dest!: read_loop_trace [where d = 0] split: sum.splits if_splits)

theorem frames_sent_witness:
  "\<exists>m xs n. kraken_subscribe_message ''ethbtc'' = Some m
     \<and> [Attempt, Send m, Send PING] = Attempt # map Send [m] @ xs \<and> sends xs = replicate n PING"
proof -
  let ?ex = "kraken \<lparr>ke_peek = \<lambda>_. None, ke_message = \<lambda>_. None, ke_crc32 = \<lambda>_. 0\<rparr>"
  let ?cn = "(cy_connection example_cycle)\<lparr>cn_events := [Idle True, Stream_End]\<rparr>"
  have "kraken_subscribe_message ''ethbtc'' \<noteq> None" by code_simp
  then obtain m where m: "kraken_subscribe_message ''ethbtc'' = Some m" by auto
  then have "run_once ?ex (\<lambda>_. None) ''ethbtc'' None ?cn =
      Done (None, [Attempt, Send m, Send PING], Some (Some 1, Inr ()))"
    by (simp add: run_once_def run_once_inner_def dial_def proxy_addr_def kraken_def example_cycle_def
        kraken_idle_ping_def Let_def)
  from frames_sent [OF this] m show ?thesis by (auto simp: kraken_def)
qed

end
