(* ===== verification/Merge.thy ===== *)
theory Merge
  imports Exchange "HOL-Library.Product_Lexorder"
begin

text \<open>
  \<open>src/merge.rs\<close> over the messages of \<open>proto/orderbook.proto\<close>: the ordering of levels on each
  side, the cursor merge of one side, and the merged \<open>Summary\<close>. The cursor merge of books
  that are sorted best-first is proved equal to the first ten levels of the stable sort of
  all levels taken in venue order.
\<close>

section \<open>The wire messages\<close>

record level_msg =
  lv_exchange :: string
  lv_price :: f64
  lv_amount :: f64

record summary =
  sm_spread :: f64
  sm_bids :: "level_msg list"
  sm_asks :: "level_msg list"

text \<open>The derived \<open>PartialEq\<close> compares field by field, floats by IEEE equality.\<close>

definition level_msg_eq :: "level_msg \<Rightarrow> level_msg \<Rightarrow> bool" where
  "level_msg_eq a b \<longleftrightarrow> lv_exchange a = lv_exchange b
     \<and> feq (lv_price a) (lv_price b) \<and> feq (lv_amount a) (lv_amount b)"

definition summary_eq :: "summary \<Rightarrow> summary \<Rightarrow> bool" where
  "summary_eq a b \<longleftrightarrow> feq (sm_spread a) (sm_spread b)
     \<and> list_all2 level_msg_eq (sm_bids a) (sm_bids b)
     \<and> list_all2 level_msg_eq (sm_asks a) (sm_asks b)"

section \<open>Sides\<close>

definition TOP_N :: nat where
  "TOP_N = 10"

datatype side = Bid | Ask

definition better :: "side \<Rightarrow> level \<Rightarrow> level \<Rightarrow> ordering" where
  "better s a b =
     (let by_price = (case s of Ask \<Rightarrow> price_cmp (fst a) (fst b) | Bid \<Rightarrow> price_cmp (fst b) (fst a))
      in then_cmp by_price (amount_cmp (snd b) (snd a)))"

fun levels :: "side \<Rightarrow> book \<Rightarrow> level list" where
  "levels Bid b = bids b"
| "levels Ask b = asks b"

section \<open>Merging one side\<close>

text \<open>
  A cursor is a venue with the levels its iterator has left. One round takes the best front
  element (the first among equals) and advances that cursor.
\<close>

type_synonym cursor = "venue \<times> level list"

fun peek :: "nat \<times> cursor \<Rightarrow> (nat \<times> venue \<times> level) option" where
  "peek (i, v, []) = None"
| "peek (i, v, l # ls) = Some (i, v, l)"

definition fronts :: "cursor list \<Rightarrow> (nat \<times> venue \<times> level) list" where
  "fronts cs = List.map_filter peek (enumerate 0 cs)"

definition best_front :: "side \<Rightarrow> cursor list \<Rightarrow> (nat \<times> venue \<times> level) option" where
  "best_front s cs = min_by (\<lambda>(_, _, a) (_, _, b). better s a b) (fronts cs)"

definition advance :: "cursor list \<Rightarrow> nat \<Rightarrow> cursor list" where
  "advance cs i = cs[i := (fst (cs ! i), tl (snd (cs ! i)))]"

definition to_level_msg :: "venue \<Rightarrow> level \<Rightarrow> level_msg" where
  "to_level_msg v l = \<lparr>lv_exchange = venue_display v, lv_price = f64_from_price (fst l),
     lv_amount = f64_from_amount (snd l)\<rparr>"

function merge_loop :: "side \<Rightarrow> cursor list \<Rightarrow> level_msg list \<Rightarrow> level_msg list" where
  "merge_loop s cs out =
     (if length out < TOP_N then
        (case best_front s cs of
           None \<Rightarrow> out
         | Some (i, v, l) \<Rightarrow> merge_loop s (advance cs i) (out @ [to_level_msg v l]))
      else out)"
  by pat_completeness auto
termination
  by (relation "measure (\<lambda>(s, cs, out). TOP_N - length out)") auto

declare merge_loop.simps [simp del]

definition cursors_of :: "side \<Rightarrow> (venue, book) btree \<Rightarrow> cursor list" where
  "cursors_of s venues = map (\<lambda>(v, b). (v, levels s b)) (bt_iter venues)"

definition merge_side :: "(venue, book) btree \<Rightarrow> side \<Rightarrow> level_msg list" where
  "merge_side venues s = merge_loop s (cursors_of s venues) []"

section \<open>The summary\<close>

definition f64_1e8 :: f64 where
  "f64_1e8 = 0x4197d78400000000"

definition spread_of :: "f64 \<Rightarrow> f64 \<Rightarrow> f64" where
  "spread_of ask bid = fdiv (fround (fmul (fsub ask bid) f64_1e8)) f64_1e8"

definition merge :: "(venue, book) btree \<Rightarrow> summary option" where
  "merge venues =
     (let bs = merge_side venues Bid; as = merge_side venues Ask
      in case bs of
           [] \<Rightarrow> None
         | best_bid # _ \<Rightarrow>
             (case as of
                [] \<Rightarrow> None
              | best_ask # _ \<Rightarrow>
                  Some \<lparr>sm_spread = spread_of (lv_price best_ask) (lv_price best_bid),
                        sm_bids = bs, sm_asks = as\<rparr>))"

section \<open>The order on levels\<close>

text \<open>\<open>better\<close> is the lexicographic order on this key: smaller is better.\<close>

definition price_key :: "side \<Rightarrow> level \<Rightarrow> int" where
  "price_key s l = (case s of Ask \<Rightarrow> total_key (price_f64 (fst l)) | Bid \<Rightarrow> - total_key (price_f64 (fst l)))"

definition amount_key :: "level \<Rightarrow> int" where
  "amount_key l = - total_key (amount_f64 (snd l))"

definition at_least_as_good :: "side \<Rightarrow> level \<Rightarrow> level \<Rightarrow> bool" where
  "at_least_as_good s a b \<longleftrightarrow> better s a b \<noteq> Greater"

lemma better_Greater:
  "better s a b = Greater \<longleftrightarrow>
     price_key s b < price_key s a \<or> (price_key s b = price_key s a \<and> amount_key b < amount_key a)"
  by (cases s) (auto simp: better_def price_key_def amount_key_def price_cmp_def amount_cmp_def)

lemma better_Less:
  "better s a b = Less \<longleftrightarrow>
     price_key s a < price_key s b \<or> (price_key s a = price_key s b \<and> amount_key a < amount_key b)"
  by (cases s) (auto simp: better_def price_key_def amount_key_def price_cmp_def amount_cmp_def)

lemma better_Equal: "better s a b = Equal \<longleftrightarrow> a = b"
  by (cases s; cases a; cases b)
    (auto simp: better_def price_cmp_def amount_cmp_def price.expand amount.expand)

lemma at_least_as_good_iff:
  "at_least_as_good s a b \<longleftrightarrow>
     price_key s a < price_key s b \<or> (price_key s a = price_key s b \<and> amount_key a \<le> amount_key b)"
  by (auto simp: at_least_as_good_def better_Greater)

definition level_key :: "side \<Rightarrow> level \<Rightarrow> int \<times> int" where
  "level_key s l = (price_key s l, amount_key l)"

lemma better_level_key: "better s a b = Greater \<longleftrightarrow> level_key s b < level_key s a"
  by (auto simp: better_Greater level_key_def)

lemma at_least_as_good_key: "at_least_as_good s a b \<longleftrightarrow> level_key s a \<le> level_key s b"
  by (simp add: at_least_as_good_def better_level_key not_less)

section \<open>The rounds of the merge\<close>

text \<open>The levels taken in \<open>n\<close> rounds, each with its venue.\<close>

fun picks :: "side \<Rightarrow> nat \<Rightarrow> cursor list \<Rightarrow> (venue \<times> level) list" where
  "picks s 0 cs = []"
| "picks s (Suc n) cs =
     (case best_front s cs of
        None \<Rightarrow> []
      | Some (i, v, l) \<Rightarrow> (v, l) # picks s n (advance cs i))"

lemma merge_loop_picks:
  "merge_loop s cs out = out @ map (\<lambda>(v, l). to_level_msg v l) (picks s (TOP_N - length out) cs)"
proof (induction s cs out rule: merge_loop.induct)
  case (1 s cs out)
  show ?case
  proof (cases "length out < TOP_N")
    case True
    then obtain n where n: "TOP_N - length out = Suc n" by (metis Suc_diff_Suc)
    then have n': "TOP_N - Suc (length out) = n" by simp
    show ?thesis
      by (cases "best_front s cs") (use 1 True n n' in \<open>auto simp: merge_loop.simps [of s cs out]\<close>)
  next
    case False
    then show ?thesis by (simp add: merge_loop.simps [of s cs out])
  qed
qed

text \<open>What the cursors still hold, in venue order.\<close>

definition pending :: "cursor list \<Rightarrow> (venue \<times> level) list" where
  "pending cs = concat (map (\<lambda>(v, ls). map (Pair v) ls) cs)"

lemma pending_simps [simp]:
  "pending [] = []"
  "pending ((v, ls) # cs) = map (Pair v) ls @ pending cs"
  "pending (cs @ ds) = pending cs @ pending ds"
  by (simp_all add: pending_def)

lemma peek_fronts:
  assumes "(v, l # ls) \<in> set cs"
  shows "\<exists>i. (i, v, l) \<in> set (List.map_filter peek (enumerate k cs))"
  using assms
proof (induction cs arbitrary: k)
  case (Cons c cs)
  show ?case
  proof (cases "c = (v, l # ls)")
    case True
    then show ?thesis by auto
  next
    case False
    with Cons obtain i where "(i, v, l) \<in> set (List.map_filter peek (enumerate (Suc k) cs))"
      by auto
    then show ?thesis by (auto split: option.splits)
  qed
qed simp

lemma fronts_split:
  assumes "List.map_filter peek (enumerate k cs) = as @ (i, v, l) # bs"
  obtains pre ls post where "cs = pre @ (v, l # ls) # post" "i = k + length pre"
    "\<And>w m ms. (w, m # ms) \<in> set pre \<Longrightarrow> \<exists>j. (j, w, m) \<in> set as"
    "\<And>w m ms. (w, m # ms) \<in> set post \<Longrightarrow> \<exists>j. (j, w, m) \<in> set bs"
  using assms
proof (induction cs arbitrary: k as thesis)
  case Nil
  then show ?case by simp
next
  case (Cons c cs)
  obtain w ks where c: "c = (w, ks)" by (cases c)
  show ?case
  proof (cases "\<exists>as'. List.map_filter peek (enumerate (Suc k) cs) = as' @ (i, v, l) # bs
      \<and> set as' \<subseteq> set as \<and> (\<forall>m ms. ks = m # ms \<longrightarrow> (\<exists>j. (j, w, m) \<in> set as))")
    case True
    then obtain as' where as': "List.map_filter peek (enumerate (Suc k) cs) = as' @ (i, v, l) # bs"
      "set as' \<subseteq> set as" "\<forall>m ms. ks = m # ms \<longrightarrow> (\<exists>j. (j, w, m) \<in> set as)" by blast
    obtain pre ls post where "cs = pre @ (v, l # ls) # post" "i = Suc k + length pre"
      "\<And>w m ms. (w, m # ms) \<in> set pre \<Longrightarrow> \<exists>j. (j, w, m) \<in> set as'"
      "\<And>w m ms. (w, m # ms) \<in> set post \<Longrightarrow> \<exists>j. (j, w, m) \<in> set bs"
      by (rule Cons.IH [OF _ as'(1)]) blast
    then show ?thesis using as'(2,3) c
      by (intro Cons.prems(1) [of "c # pre" ls post]) (auto, blast)
  next
    case False
    from Cons.prems(2) c False obtain ms where ks: "ks = l # ms" and "w = v" "i = k"
      and bs: "bs = List.map_filter peek (enumerate (Suc k) cs)"
      by (cases ks; cases as) auto
    then show ?thesis using c
      by (intro Cons.prems(1) [of "[]" ms cs]) (auto intro: peek_fronts)
  qed
qed

definition sorted_cursor :: "side \<Rightarrow> cursor \<Rightarrow> bool" where
  "sorted_cursor s c \<longleftrightarrow> sorted (map (level_key s) (snd c))"

lemma best_front_Some:
  assumes "best_front s cs = Some (i, v, l)"
  obtains pre ls post where "cs = pre @ (v, l # ls) # post" "i = length pre"
    "\<And>w m ms. (w, m # ms) \<in> set pre \<Longrightarrow> level_key s l < level_key s m"
    "\<And>w m ms. (w, m # ms) \<in> set post \<Longrightarrow> level_key s l \<le> level_key s m"
proof -
  let ?f = "\<lambda>(i, v, l). level_key s l"
  obtain as bs where fr: "fronts cs = as @ (i, v, l) # bs"
    and lt: "\<forall>a\<in>set as. ?f (i, v, l) < ?f a" and le: "\<forall>b\<in>set bs. ?f (i, v, l) \<le> ?f b"
    using assms unfolding best_front_def
    by (rule min_by_first [where f = ?f]) (auto simp: better_level_key)
  obtain pre ls post where cs: "cs = pre @ (v, l # ls) # post" "i = 0 + length pre"
    and pre: "\<And>w m ms. (w, m # ms) \<in> set pre \<Longrightarrow> \<exists>j. (j, w, m) \<in> set as"
    and post: "\<And>w m ms. (w, m # ms) \<in> set post \<Longrightarrow> \<exists>j. (j, w, m) \<in> set bs"
    using fr unfolding fronts_def by (rule fronts_split) blast
  show ?thesis
  proof (rule that [of pre ls post])
    show "level_key s l < level_key s m" if "(w, m # ms) \<in> set pre" for w m ms
      using pre [OF that] lt by auto
    show "level_key s l \<le> level_key s m" if "(w, m # ms) \<in> set post" for w m ms
      using post [OF that] le by auto
  qed (use cs in simp_all)
qed

lemma best_front_None: "best_front s cs = None \<longleftrightarrow> pending cs = []"
proof -
  have "fronts cs = [] \<longleftrightarrow> pending cs = []"
  proof -
    have "List.map_filter peek (enumerate k cs) = [] \<longleftrightarrow> pending cs = []" for k
    proof (induction cs arbitrary: k)
      case (Cons c cs)
      then show ?case by (cases c; cases "snd c") auto
    qed simp
    then show ?thesis by (simp add: fronts_def)
  qed
  then show ?thesis by (simp add: best_front_def)
qed

lemma advance_split: "advance (pre @ (v, l # ls) # post) (length pre) = pre @ (v, ls) # post"
  by (simp add: advance_def)

section \<open>Cursor merge and stable sort\<close>

lemma sort_key_take_first:
  assumes "\<forall>a\<in>set as. f x < f a" "\<forall>b\<in>set bs. f x \<le> f b"
  shows "sort_key f (as @ x # bs) = x # sort_key f (as @ bs)"
  using assms(1)
proof (induction as)
  case Nil
  have "insort_key f x (sort_key f bs) = x # sort_key f bs"
    using assms(2) by (intro insort_is_Cons) simp
  then show ?case by simp
next
  case (Cons a as)
  then show ?case by (auto dest: leD)
qed

lemma sorted_cursor_pending:
  assumes "\<forall>c\<in>set cs. sorted_cursor s c" "(w, m) \<in> set (pending cs)"
  obtains k ks where "(w, k # ks) \<in> set cs" "level_key s k \<le> level_key s m"
proof -
  from assms(2) obtain ls where ls: "(w, ls) \<in> set cs" "m \<in> set ls" by (auto simp: pending_def)
  then obtain k ks where k: "ls = k # ks" by (cases ls) auto
  have "sorted (map (level_key s) ls)" using assms(1) ls by (auto simp: sorted_cursor_def)
  then have "level_key s k \<le> level_key s m" using ls(2) unfolding k by auto
  with ls(1) that show ?thesis unfolding k by blast
qed

lemma picks_sort:
  assumes "\<forall>c\<in>set cs. sorted_cursor s c"
  shows "picks s n cs = take n (sort_key (\<lambda>(v, l). level_key s l) (pending cs))"
  using assms
proof (induction n arbitrary: cs)
  case 0
  then show ?case by simp
next
  case (Suc n)
  let ?f = "\<lambda>(v, l). level_key s l"
  show ?case
  proof (cases "best_front s cs")
    case None
    then have "pending cs = []" by (simp only: best_front_None)
    with None show ?thesis by simp
  next
    case (Some ivl)
    then obtain i v l where ivl: "best_front s cs = Some (i, v, l)" by (cases ivl) auto
    then obtain pre ls post where cs: "cs = pre @ (v, l # ls) # post" and i: "i = length pre"
      and pre: "\<And>w m ms. (w, m # ms) \<in> set pre \<Longrightarrow> level_key s l < level_key s m"
      and post: "\<And>w m ms. (w, m # ms) \<in> set post \<Longrightarrow> level_key s l \<le> level_key s m"
      by (rule best_front_Some) blast
    have srt: "sorted_cursor s (v, l # ls)" "\<forall>c\<in>set pre. sorted_cursor s c"
      "\<forall>c\<in>set post. sorted_cursor s c" using Suc.prems unfolding cs by auto
    have lt: "\<forall>a\<in>set (pending pre). ?f (v, l) < ?f a"
    proof (clarsimp)
      fix w a b
      assume "(w, a, b) \<in> set (pending pre)"
      then obtain k ks where "(w, k # ks) \<in> set pre" "level_key s k \<le> level_key s (a, b)"
        by (rule sorted_cursor_pending [OF srt(2)])
      then show "level_key s l < level_key s (a, b)" using pre less_le_trans by blast
    qed
    have "\<forall>b\<in>set (pending post). ?f (v, l) \<le> ?f b"
    proof (clarsimp)
      fix w a b
      assume "(w, a, b) \<in> set (pending post)"
      then obtain k ks where "(w, k # ks) \<in> set post" "level_key s k \<le> level_key s (a, b)"
        by (rule sorted_cursor_pending [OF srt(3)])
      then show "level_key s l \<le> level_key s (a, b)" using post order_trans by blast
    qed
    moreover have "\<forall>b\<in>set (map (Pair v) ls). ?f (v, l) \<le> ?f b"
      using srt(1) by (auto simp: sorted_cursor_def)
    ultimately have le: "\<forall>b\<in>set (map (Pair v) ls @ pending post). ?f (v, l) \<le> ?f b" by auto
    have adv: "advance cs i = pre @ (v, ls) # post" unfolding cs i by (rule advance_split)
    then have "\<forall>c\<in>set (advance cs i). sorted_cursor s c"
      using srt by (auto simp: sorted_cursor_def)
    note IH = Suc.IH [OF this]
    have "pending cs = pending pre @ (v, l) # (map (Pair v) ls @ pending post)" by (simp add: cs)
    moreover have "pending (advance cs i) = pending pre @ (map (Pair v) ls @ pending post)"
      by (simp add: adv)
    ultimately have "sort_key ?f (pending cs) = (v, l) # sort_key ?f (pending (advance cs i))"
      by (simp only: sort_key_take_first [OF lt le])
    with IH ivl show ?thesis by simp
  qed
qed

section \<open>What holds of any books\<close>

text \<open>
  Without assuming sorted books: a side has as many levels as there are, ten at most, and
  each venue's share of the output is a prefix of that venue's own list.
\<close>

lemma advance_pending:
  assumes "best_front s cs = Some (i, v, l)"
  obtains pre ls post where "cs = pre @ (v, l # ls) # post" "advance cs i = pre @ (v, ls) # post"
  using assms by (rule best_front_Some) (metis advance_split that)

lemma length_picks: "length (picks s n cs) = min n (length (pending cs))"
proof (induction n arbitrary: cs)
  case (Suc n)
  show ?case
  proof (cases "best_front s cs")
    case None
    then have "pending cs = []" by (simp only: best_front_None)
    with None show ?thesis by simp
  next
    case (Some ivl)
    then obtain i v l where ivl: "best_front s cs = Some (i, v, l)" by (cases ivl) auto
    then obtain pre ls post where "cs = pre @ (v, l # ls) # post"
      "advance cs i = pre @ (v, ls) # post" by (rule advance_pending)
    with Suc.IH [of "advance cs i"] ivl show ?thesis by simp
  qed
qed simp

definition of_venue :: "venue \<Rightarrow> (venue \<times> level) list \<Rightarrow> level list" where
  "of_venue w xs = map snd (filter (\<lambda>(v, _). v = w) xs)"

lemma of_venue_simps [simp]:
  "of_venue w [] = []"
  "of_venue w ((v, l) # xs) = (if v = w then [l] else []) @ of_venue w xs"
  "of_venue w (xs @ ys) = of_venue w xs @ of_venue w ys"
  "of_venue w (map (Pair v) ls) = (if v = w then ls else [])"
  by (auto simp: of_venue_def comp_def filter_map)

lemma of_venue_pending_absent: "w \<notin> fst ` set cs \<Longrightarrow> of_venue w (pending cs) = []"
  by (induction cs) auto

lemma of_venue_pending:
  "distinct (map fst cs) \<Longrightarrow> (w, ls) \<in> set cs \<Longrightarrow> of_venue w (pending cs) = ls"
proof (induction cs)
  case (Cons c cs)
  obtain v ks where c: "c = (v, ks)" by (cases c)
  show ?case
  proof (cases "v = w")
    case True
    with Cons.prems c have "w \<notin> fst ` set cs" "ks = ls" by (auto simp: rev_image_eqI)
    with True c show ?thesis by (simp add: of_venue_pending_absent)
  next
    case False
    with Cons c show ?thesis by auto
  qed
qed simp

lemma picks_prefix:
  "distinct (map fst cs) \<Longrightarrow>
   \<exists>rest. of_venue w (pending cs) = of_venue w (picks s n cs) @ rest"
proof (induction n arbitrary: cs)
  case (Suc n)
  show ?case
  proof (cases "best_front s cs")
    case None
    then show ?thesis by simp
  next
    case (Some ivl)
    then obtain i v l where ivl: "best_front s cs = Some (i, v, l)" by (cases ivl) auto
    then obtain pre ls post where cs: "cs = pre @ (v, l # ls) # post"
      and adv: "advance cs i = pre @ (v, ls) # post" by (rule advance_pending)
    have "distinct (map fst (advance cs i))" using Suc.prems [unfolded cs] by (simp add: adv)
    with Suc.IH obtain rest where
      rest: "of_venue w (pending (advance cs i)) = of_venue w (picks s n (advance cs i)) @ rest"
      by blast
    have "of_venue w (pending cs) = (if v = w then [l] else []) @ of_venue w (pending (advance cs i))"
    proof (cases "v = w")
      case True
      with Suc.prems have "w \<notin> fst ` set pre" unfolding cs by (auto simp: rev_image_eqI)
      with True show ?thesis by (simp add: adv) (simp add: cs of_venue_pending_absent)
    next
      case False
      then show ?thesis by (simp add: adv) (simp add: cs)
    qed
    with rest ivl show ?thesis by simp
  qed
qed simp

lemma merge_side_picks:
  "merge_side venues s = map (\<lambda>(v, l). to_level_msg v l) (picks s TOP_N (cursors_of s venues))"
  by (simp add: merge_side_def merge_loop_picks)

definition all_levels :: "side \<Rightarrow> (venue, book) btree \<Rightarrow> (venue \<times> level) list" where
  "all_levels s venues = concat (map (\<lambda>(v, b). map (Pair v) (levels s b)) (bt_iter venues))"

lemma pending_cursors_of: "pending (cursors_of s venues) = all_levels s venues"
  by (simp add: pending_def cursors_of_def all_levels_def comp_def case_prod_beta')

definition book_sorted :: "side \<Rightarrow> book \<Rightarrow> bool" where
  "book_sorted s b \<longleftrightarrow> sorted (map (level_key s) (levels s b))"

lemma sorted_cursors_of:
  "\<forall>(v, b)\<in>set venues. book_sorted s b \<Longrightarrow> \<forall>c\<in>set (cursors_of s venues). sorted_cursor s c"
  by (auto simp: cursors_of_def bt_iter_def book_sorted_def sorted_cursor_def)

lemma merge_side_None: "merge_side venues s = [] \<longleftrightarrow> all_levels s venues = []"
proof -
  have "merge_side venues s = [] \<longleftrightarrow> length (picks s TOP_N (cursors_of s venues)) = 0"
    by (simp add: merge_side_picks)
  also have "\<dots> \<longleftrightarrow> all_levels s venues = []"
    by (auto simp: length_picks pending_cursors_of TOP_N_def min_def split: if_splits)
  finally show ?thesis .
qed

lemma merge_SomeE:
  assumes "merge venues = Some m"
  obtains b bs a as where "merge_side venues Bid = b # bs" "merge_side venues Ask = a # as"
    "m = \<lparr>sm_spread = spread_of (lv_price a) (lv_price b), sm_bids = b # bs, sm_asks = a # as\<rparr>"
  using assms by (auto simp: merge_def Let_def split: list.splits)

lemma distinct_cursors: "bt_sorted venues \<Longrightarrow> distinct (map fst (cursors_of s venues))"
  by (simp add: cursors_of_def bt_iter_def bt_sorted_def comp_def case_prod_beta' strict_sorted_iff)

lemma set_picks: "set (picks s n cs) \<subseteq> set (pending cs)"
proof (induction n arbitrary: cs)
  case (Suc n)
  show ?case
  proof (cases "best_front s cs")
    case (Some ivl)
    then obtain i v l where ivl: "best_front s cs = Some (i, v, l)" by (cases ivl) auto
    then obtain pre ls post where "cs = pre @ (v, l # ls) # post"
      "advance cs i = pre @ (v, ls) # post" by (rule advance_pending)
    with Suc.IH [of "advance cs i"] ivl show ?thesis by auto
  qed simp
qed simp

text \<open>Every level of a merged side is a level of one of the books, under its venue's name.\<close>

lemma merge_side_levels:
  assumes "l \<in> set (merge_side venues s)"
  obtains v b x where "(v, b) \<in> set venues" "x \<in> set (levels s b)" "l = to_level_msg v x"
proof -
  from assms obtain v x where x: "(v, x) \<in> set (picks s TOP_N (cursors_of s venues))"
    "l = to_level_msg v x" by (auto simp: merge_side_picks)
  then have "(v, x) \<in> set (all_levels s venues)"
    using set_picks [of s TOP_N "cursors_of s venues"] by (auto simp: pending_cursors_of)
  then show ?thesis using x(2) that by (auto simp: all_levels_def bt_iter_def)
qed

lemma merge_levels:
  assumes "merge venues = Some m" "l \<in> set (sm_bids m) \<union> set (sm_asks m)"
  obtains v b where "(v, b) \<in> set venues" "lv_exchange l = venue_display v"
proof -
  obtain b bs a as where "merge_side venues Bid = b # bs" "merge_side venues Ask = a # as"
    "m = \<lparr>sm_spread = spread_of (lv_price a) (lv_price b), sm_bids = b # bs, sm_asks = a # as\<rparr>"
    using assms(1) by (rule merge_SomeE)
  with assms(2) have "l \<in> set (merge_side venues Bid) \<or> l \<in> set (merge_side venues Ask)" by auto
  then obtain s where "l \<in> set (merge_side venues s)" by blast
  then obtain v b x where "(v, b) \<in> set venues" "l = to_level_msg v x" by (rule merge_side_levels)
  with that show ?thesis by (simp add: to_level_msg_def)
qed

section \<open>Properties\<close>

text \<open>Two small books that cross: Binance bids 10 and 9, Bitstamp asks 9.\<close>

definition sample_venues :: "(venue, book) btree" where
  "sample_venues = bt_insert Bitstamp
       \<lparr>bids = [(Price 0x4022000000000000, Amount 0x3ff0000000000000)],
        asks = [(Price 0x4022000000000000, Amount 0x3ff0000000000000)],
        last_update_id = 0, parse_started_at = 1, parsed_at = 2\<rparr>
     (bt_insert Binance
       \<lparr>bids = [(Price 0x4024000000000000, Amount 0x3ff0000000000000),
                (Price 0x4022000000000000, Amount 0x3ff0000000000000)],
        asks = [(Price 0x4026000000000000, Amount 0x3ff0000000000000)],
        last_update_id = 7, parse_started_at = 3, parsed_at = 4\<rparr> bt_empty)"

text \<open>
  C9. When every venue's book is sorted best-first on a side, the cursor merge of that side
  is the stable sort of all levels of all venues, taken in venue order, cut at ten: the best
  ten levels overall, equal levels ordered by venue.
\<close>

theorem merge_side_stable_sort:
  assumes "\<forall>(v, b)\<in>set venues. book_sorted s b"
  shows "merge_side venues s = map (\<lambda>(v, l). to_level_msg v l)
    (take TOP_N (sort_key (\<lambda>(v, l). level_key s l) (all_levels s venues)))"
  using picks_sort [OF sorted_cursors_of [OF assms]]
  by (simp only: merge_side_picks pending_cursors_of)

theorem merge_side_stable_sort_witness:
  "map lv_exchange (merge_side sample_venues Bid) = [''binance'', ''binance'', ''bitstamp'']"
proof -
  have sorted: "\<forall>(v, b)\<in>set sample_venues. book_sorted Bid b" by code_simp
  show ?thesis unfolding merge_side_stable_sort [OF sorted] by code_simp
qed

text \<open>
  C16. Whatever order the books are in, a merged side has every level up to ten, takes them
  only from the books, and shows of each venue a prefix of that venue's own list.
\<close>

theorem merge_side_prefixes:
  assumes "bt_sorted venues"
  shows "\<exists>ps. merge_side venues s = map (\<lambda>(v, l). to_level_msg v l) ps
    \<and> length ps = min TOP_N (length (all_levels s venues))
    \<and> set ps \<subseteq> set (all_levels s venues)
    \<and> (\<forall>(v, b)\<in>set venues. \<exists>rest. levels s b = of_venue v ps @ rest)"
proof (intro exI conjI ballI)
  let ?cs = "cursors_of s venues"
  show "merge_side venues s = map (\<lambda>(v, l). to_level_msg v l) (picks s TOP_N ?cs)"
    by (rule merge_side_picks)
  show "length (picks s TOP_N ?cs) = min TOP_N (length (all_levels s venues))"
    by (simp add: length_picks pending_cursors_of)
  show "set (picks s TOP_N ?cs) \<subseteq> set (all_levels s venues)"
    using set_picks [of s TOP_N ?cs] by (simp add: pending_cursors_of)
  fix vb
  assume vb: "vb \<in> set venues"
  obtain v b where [simp]: "vb = (v, b)" by (cases vb)
  have dist: "distinct (map fst ?cs)" using assms by (rule distinct_cursors)
  have "(v, levels s b) \<in> set ?cs" using vb by (force simp: cursors_of_def bt_iter_def)
  then have "of_venue v (pending ?cs) = levels s b" by (rule of_venue_pending [OF dist])
  with picks_prefix [OF dist, of v s TOP_N]
  show "case vb of (v, b) \<Rightarrow> \<exists>rest. levels s b = of_venue v (picks s TOP_N ?cs) @ rest" by simp
qed

theorem merge_side_prefixes_witness:
  "\<exists>ps. merge_side sample_venues Ask = map (\<lambda>(v, l). to_level_msg v l) ps \<and> length ps = 2"
proof -
  have "bt_sorted sample_venues" by code_simp
  moreover have "min TOP_N (length (all_levels Ask sample_venues)) = 2" by code_simp
  ultimately show ?thesis using merge_side_prefixes [of sample_venues Ask] by force
qed

end
