(* ===== verification/Feed_Books.thy ===== *)
theory Feed_Books
  imports Feed_Driver Merge
begin

text \<open>
  What a feed may hand on over any number of connections: a contract that adds to
  \<open>exchange_contract\<close> a property of the parsed books, and its lemma that every book a feed hands
  on has the property and the feed's own venue.
\<close>

section \<open>The contract\<close>

locale checked_exchange = exchange_contract +
  fixes good :: "book \<Rightarrow> bool"
  assumes parse_good: "inv s \<Longrightarrow> ex_parse ex s raw t = Done (s', Some b) \<Longrightarrow> good b"
begin

lemma read_loop_good:
  "inv s \<Longrightarrow> read_loop ex s es = Done (s', out, res) \<Longrightarrow> inv s'
     \<and> list_all (\<lambda>m. fst m = ex_venue ex \<and> good (snd m)) (forwards out)"
proof (induction es arbitrary: s out)
  case (Cons e es)
  show ?case
  proof (cases e)
    case (Received m t)
    show ?thesis
    proof (cases m)
      case (Text raw)
      from Cons.prems(2) obtain s1 r out' where p: "ex_parse ex s raw t = Done (s1, r)"
        "read_loop ex s1 es = Done (s', out', res)"
        "out = (case r of None \<Rightarrow> out' | Some b \<Rightarrow> Forward (ex_venue ex) b # out')"
        by (auto simp: Received Text elim!: bind_outcome_DoneE)
      note i = parse_inv [OF Cons.prems(1) p(1)]
      show ?thesis using Cons.IH [OF i p(2)] p Cons.prems(1)
        by (auto intro: parse_good split: option.split)
    qed (use Cons Received in auto)
  next
    case (Idle sent)
    with Cons show ?thesis
      by (cases "kraken_idle_ping (ex_venue ex)"; cases sent) (auto elim!: bind_outcome_DoneE)
  qed (use Cons.prems in auto)
qed simp

lemma run_once_good:
  assumes "inv s" "run_once ex var pair s cn = Done (s', out, res)"
  shows "inv s' \<and> list_all (\<lambda>m. fst m = ex_venue ex \<and> good (snd m)) (forwards out)"
proof -
  obtain s1 o1 r where r: "run_once_inner ex var pair s cn = Done (s1, o1, r)"
    using assms(2) by (auto simp: run_once_def elim!: bind_outcome_DoneE)
  with assms(2) have eq: "s1 = s'" "o1 = out" by (simp_all add: run_once_def)
  have "(s' = s \<and> forwards out = []) \<or>
      (\<exists>out' res'. read_loop ex s (cn_events cn) = Done (s', out', res') \<and> forwards out = forwards out')"
    using r unfolding eq run_once_inner_def Let_def
    by (cases "dial var (ex_connect_url ex pair) cn"; cases "ex_subscribe_message ex pair"; cases "cn_subscribed cn")
      (auto elim!: bind_outcome_DoneE split: sum.splits)
  with read_loop_good [OF assms(1)] assms(1) show ?thesis by fastforce
qed

lemma forwards_sleeps: "forwards (map Sleep ws) = []"
  by (induction ws) simp_all

lemma run_feed_loop_good:
  "inv s \<Longrightarrow> run_feed_loop ex var pair s backoff bucket cys = Done (s', out) \<Longrightarrow>
     list_all (\<lambda>m. fst m = ex_venue ex \<and> good (snd m)) (forwards out)"
proof (induction cys arbitrary: s backoff bucket out)
  case (Cons cy cys)
  from Cons.prems(2) obtain s1 o1 res where o: "run_once ex var pair s (cy_connection cy) = Done (s1, o1, res)"
    by (auto elim!: bind_outcome_DoneE)
  note g = run_once_good [OF Cons.prems(1) o]
  show ?case
  proof (cases res)
    case None
    with g o Cons.prems(2) show ?thesis by auto
  next
    case (Some r)
    note IH = Cons.IH [OF conjunct1 [OF g]]
    from Some o Cons.prems(2) show ?thesis
      using g by (auto simp: Let_def forwards_sleeps elim!: bind_outcome_DoneE dest!: IH
          split: prod.splits if_splits)
  qed
qed simp

lemma run_feed_good:
  "run_feed ex var pair init t0 cys = Done (s', out) \<Longrightarrow>
     list_all (\<lambda>m. fst m = ex_venue ex \<and> good (snd m)) (forwards out)"
  unfolding run_feed_def by (auto intro: run_feed_loop_good [OF inv_init] split: prod.splits)

end

section \<open>The venues\<close>

text \<open>Kraken's books are sorted by price and at most ten deep; of the others nothing is known.\<close>

definition kraken_shaped :: "book \<Rightarrow> bool" where
  "kraken_shaped b \<longleftrightarrow> sorted (map (price_key Bid) (bids b)) \<and> sorted (map (price_key Ask) (asks b))
     \<and> length (bids b) \<le> DEPTH \<and> length (asks b) \<le> DEPTH"

lemma price_key_pair_of:
  "price_key Bid (pair_of l) = order_key False l" "price_key Ask (pair_of l) = order_key True l"
  by (simp_all add: price_key_def pair_of_def order_key_def)

lemma published_shaped: "published env held data t b \<Longrightarrow> kraken_shaped b"
  by (auto simp: published_def kraken_shaped_def book_inv_def side_sorted_def price_key_pair_of comp_def)

interpretation kraken_books: checked_exchange "kraken env" kraken_inv kraken_new kraken_shaped for env
proof unfold_locales
  fix s raw t s' b
  show "kraken_inv s \<Longrightarrow> ex_parse (kraken env) s raw t = Done (s', Some b) \<Longrightarrow> kraken_shaped b"
    using kraken_parse_ok [of s env raw t] by (auto simp: kraken_def intro: published_shaped)
qed

interpretation binance_books: checked_exchange "binance de" "\<lambda>_. True" "()" "\<lambda>_. True" for de
  by unfold_locales simp

interpretation bitstamp_books: checked_exchange "bitstamp de" "\<lambda>_. True" "()" "\<lambda>_. True" for de
  by unfold_locales simp

end
