(* ===== verification/Aggregator_Task.thy ===== *)
theory Aggregator_Task
  imports Merge
begin

text \<open>
  \<open>src/aggregator.rs\<close>: the last book of every venue, the latency histograms and counters, and
  the task loop. Histograms are \<open>hdrhistogram\<close>'s and enter through the record of operations
  \<open>ops\<close>; \<open>Instant::now()\<close> readings are arguments. The \<open>select!\<close> loop takes whichever
  branch is ready, so it is a function of an arbitrary list of events, and what it sends and
  logs is its emitted list.
\<close>

section \<open>Constants and state\<close>

definition GRACE :: duration where
  "GRACE = from_secs 60"

definition GRACE_CHECK_INTERVAL :: duration where
  "GRACE_CHECK_INTERVAL = from_secs 5"

definition REPORT_INTERVAL :: duration where
  "REPORT_INTERVAL = from_secs 30"

definition HISTOGRAM_SIGFIG :: nat where
  "HISTOGRAM_SIGFIG = 3"

text \<open>\<open>h_record\<close> is None where \<open>record\<close> returns an error, which leaves the histogram alone.\<close>

record 'h histogram_ops =
  h_new :: "nat \<Rightarrow> 'h"
  h_record :: "u64 \<Rightarrow> 'h \<Rightarrow> 'h option"
  h_quantile :: "f64 \<Rightarrow> 'h \<Rightarrow> u64"
  h_reset :: "'h \<Rightarrow> 'h"

record venue_state =
  vs_book :: book
  vs_last_update :: instant

record 'h aggregator =
  ag_venues :: "(venue, venue_state) btree"
  ag_parse_histogram :: 'h
  ag_merge_publish_histogram :: 'h
  ag_total_histogram :: 'h
  ag_update_count :: u64
  ag_duplicate_count :: u64
  ag_last_published :: "summary option"

definition aggregator_new :: "'h histogram_ops \<Rightarrow> 'h aggregator" where
  "aggregator_new ops = \<lparr>ag_venues = bt_empty,
     ag_parse_histogram = h_new ops HISTOGRAM_SIGFIG,
     ag_merge_publish_histogram = h_new ops HISTOGRAM_SIGFIG,
     ag_total_histogram = h_new ops HISTOGRAM_SIGFIG,
     ag_update_count = 0, ag_duplicate_count = 0, ag_last_published = None\<rparr>"

section \<open>Operations\<close>

definition record_duration :: "'h histogram_ops \<Rightarrow> 'h \<Rightarrow> duration \<Rightarrow> 'h" where
  "record_duration ops h d =
     (case h_record ops (word_of_nat d) h of None \<Rightarrow> h | Some h' \<Rightarrow> h')"

definition past_grace :: "instant \<Rightarrow> instant \<Rightarrow> bool \<Rightarrow> bool" where
  "past_grace started_at now venues_empty \<longleftrightarrow> GRACE < duration_since now started_at \<and> venues_empty"

definition is_fresh :: "instant \<Rightarrow> venue \<Rightarrow> venue_state \<Rightarrow> bool outcome" where
  "is_fresh now v st =
     bind_outcome (staleness_threshold v) (\<lambda>d. Done (duration_since now (vs_last_update st) < d))"

fun filter_fresh :: "instant \<Rightarrow> (venue \<times> venue_state) list \<Rightarrow> (venue \<times> book) list outcome" where
  "filter_fresh now [] = Done []"
| "filter_fresh now ((v, st) # vs) =
     bind_outcome (is_fresh now v st) (\<lambda>fresh.
       bind_outcome (filter_fresh now vs) (\<lambda>rest.
         Done (if fresh then (v, vs_book st) # rest else rest)))"

definition fresh_venues :: "(venue, venue_state) btree \<Rightarrow> instant \<Rightarrow> (venue, book) btree outcome" where
  "fresh_venues venues now =
     bind_outcome (filter_fresh now (bt_iter venues)) (\<lambda>vs. Done (bt_collect vs))"

text \<open>
  The clock readings of one call: \<open>now\<close>, and the two taken after publishing. The result is
  the new state and the summary sent, if any.
\<close>

type_synonym clocks = "instant \<times> instant \<times> instant"

definition record_and_publish ::
    "'h histogram_ops \<Rightarrow> 'h aggregator \<Rightarrow> venue \<Rightarrow> book \<Rightarrow> clocks \<Rightarrow>
     ('h aggregator \<times> summary option) outcome" where
  "record_and_publish ops ag v b t =
     (let (now, t1, t2) = t;
          ag = ag\<lparr>ag_parse_histogram := record_duration ops (ag_parse_histogram ag)
                   (duration_since (parsed_at b) (parse_started_at b))\<rparr>;
          ag = ag\<lparr>ag_venues := bt_insert v \<lparr>vs_book = b, vs_last_update = now\<rparr> (ag_venues ag)\<rparr>
      in bind_outcome (fresh_venues (ag_venues ag) now) (\<lambda>fresh.
           case merge fresh of
             None \<Rightarrow> Done (ag, None)
           | Some summary \<Rightarrow>
               let is_duplicate = (case ag_last_published ag of
                     None \<Rightarrow> False | Some prev \<Rightarrow> summary_eq prev summary);
                   ag = ag\<lparr>ag_last_published := Some summary\<rparr>
               in if is_duplicate
                  then Done (ag\<lparr>ag_duplicate_count := ag_duplicate_count ag + 1\<rparr>, None)
                  else Done (ag\<lparr>
                    ag_merge_publish_histogram := record_duration ops (ag_merge_publish_histogram ag)
                      (duration_since t1 (parsed_at b)),
                    ag_total_histogram := record_duration ops (ag_total_histogram ag)
                      (duration_since t2 (parse_started_at b)),
                    ag_update_count := ag_update_count ag + 1\<rparr>, Some summary)))"

section \<open>The report\<close>

definition us :: "u64 \<Rightarrow> f64" where
  "us ns = fdiv (f64_of_nat (unat ns)) 0x408f400000000000"

record report =
  rp_total :: "f64 list"
  rp_parse :: "f64 list"
  rp_merge_publish :: "f64 list"
  rp_update_rate_per_sec :: f64
  rp_duplicate_pct :: f64

text \<open>The quantiles 0.50, 0.99 and 0.999.\<close>

definition report_quantiles :: "f64 list" where
  "report_quantiles = [0x3fe0000000000000, 0x3fefae147ae147ae, 0x3feff7ced916872b]"

definition log_report ::
    "'h histogram_ops \<Rightarrow> 'h aggregator \<Rightarrow> u64 \<Rightarrow> duration \<Rightarrow> 'h aggregator \<times> report" where
  "log_report ops ag update_count_at_last_report window =
     (let updates_this_window = ag_update_count ag - update_count_at_last_report;
          update_rate_per_sec = fdiv (f64_of_nat (unat updates_this_window)) (as_secs_f64 window);
          total_merges = ag_update_count ag + ag_duplicate_count ag;
          duplicate_pct = (if total_merges = 0 then f64_zero False
            else fmul (fdiv (f64_of_nat (unat (ag_duplicate_count ag))) (f64_of_nat (unat total_merges)))
                   0x4059000000000000);
          quantiles = (\<lambda>h. map (\<lambda>q. us (h_quantile ops q h)) report_quantiles)
      in (ag\<lparr>ag_total_histogram := h_reset ops (ag_total_histogram ag),
             ag_parse_histogram := h_reset ops (ag_parse_histogram ag),
             ag_merge_publish_histogram := h_reset ops (ag_merge_publish_histogram ag)\<rparr>,
          \<lparr>rp_total = quantiles (ag_total_histogram ag), rp_parse = quantiles (ag_parse_histogram ag),
           rp_merge_publish = quantiles (ag_merge_publish_histogram ag),
           rp_update_rate_per_sec = update_rate_per_sec, rp_duplicate_pct = duplicate_pct\<rparr>))"

section \<open>The task\<close>

datatype event =
    Message venue book clocks
  | Closed
  | Grace_Tick instant
  | Report_Tick

datatype emitted =
    Published summary
  | Reported report

datatype exit = Channel_Closed | No_Data

text \<open>The loop returns with an exit; without one the events ran out while it was waiting.\<close>

fun run_loop ::
    "'h histogram_ops \<Rightarrow> instant \<Rightarrow> 'h aggregator \<Rightarrow> u64 \<Rightarrow> event list \<Rightarrow>
     ('h aggregator \<times> emitted list \<times> exit option) outcome" where
  "run_loop ops started_at ag last_count [] = Done (ag, [], None)"
| "run_loop ops started_at ag last_count (Message v b t # es) =
     bind_outcome (record_and_publish ops ag v b t) (\<lambda>(ag', sent).
       bind_outcome (run_loop ops started_at ag' last_count es) (\<lambda>(ag'', out, ex).
         Done (ag'', (case sent of None \<Rightarrow> out | Some s \<Rightarrow> Published s # out), ex)))"
| "run_loop ops started_at ag last_count (Closed # es) = Done (ag, [], Some Channel_Closed)"
| "run_loop ops started_at ag last_count (Grace_Tick now # es) =
     (if past_grace started_at now (bt_is_empty (ag_venues ag)) then Done (ag, [], Some No_Data)
      else run_loop ops started_at ag last_count es)"
| "run_loop ops started_at ag last_count (Report_Tick # es) =
     (let (ag', r) = log_report ops ag last_count REPORT_INTERVAL
      in bind_outcome (run_loop ops started_at ag' (ag_update_count ag') es) (\<lambda>(ag'', out, ex).
           Done (ag'', Reported r # out, ex)))"

definition run :: "'h histogram_ops \<Rightarrow> instant \<Rightarrow> event list \<Rightarrow>
    ('h aggregator \<times> emitted list \<times> exit option) outcome" where
  "run ops started_at es = run_loop ops started_at (aggregator_new ops) 0 es"

section \<open>Freshness\<close>

definition fresh_at :: "instant \<Rightarrow> venue \<times> venue_state \<Rightarrow> bool" where
  "fresh_at now vs \<longleftrightarrow> duration_since now (vs_last_update (snd vs)) < threshold_ns (fst vs)"

definition book_of_state :: "venue \<times> venue_state \<Rightarrow> venue \<times> book" where
  "book_of_state vs = (fst vs, vs_book (snd vs))"

definition fresh_books :: "(venue, venue_state) btree \<Rightarrow> instant \<Rightarrow> (venue, book) btree" where
  "fresh_books venues now = map book_of_state (filter (fresh_at now) venues)"

lemma filter_fresh_eq: "filter_fresh now vs = Done (map book_of_state (filter (fresh_at now) vs))"
  by (induction now vs rule: filter_fresh.induct)
    (simp_all add: is_fresh_def staleness_threshold_eq fresh_at_def book_of_state_def)

lemma fresh_venues_eq:
  assumes "bt_sorted venues"
  shows "fresh_venues venues now = Done (fresh_books venues now)"
    and "bt_sorted (fresh_books venues now)"
  using bt_collect_map_filter [OF assms, of book_of_state "fresh_at now"]
  by (simp_all add: fresh_venues_def filter_fresh_eq fresh_books_def bt_iter_def book_of_state_def)

lemma fresh_books_get:
  assumes "bt_sorted venues"
  shows "bt_get (fresh_books venues now) v = Some b \<longleftrightarrow>
    (\<exists>st. bt_get venues v = Some st \<and> vs_book st = b \<and> fresh_at now (v, st))"
proof -
  note iter = bt.iter_get [OF assms] bt.iter_get [OF fresh_venues_eq(2) [OF assms]]
  show ?thesis
    unfolding iter [symmetric] by (force simp: bt_iter_def fresh_books_def book_of_state_def)
qed

section \<open>One message\<close>

definition with_message :: "'h histogram_ops \<Rightarrow> 'h aggregator \<Rightarrow> venue \<Rightarrow> book \<Rightarrow> instant \<Rightarrow> 'h aggregator" where
  "with_message ops ag v b now = ag\<lparr>
     ag_parse_histogram := record_duration ops (ag_parse_histogram ag)
       (duration_since (parsed_at b) (parse_started_at b)),
     ag_venues := bt_insert v \<lparr>vs_book = b, vs_last_update = now\<rparr> (ag_venues ag)\<rparr>"

lemma with_message_simps [simp]:
  "ag_venues (with_message ops ag v b now) = bt_insert v \<lparr>vs_book = b, vs_last_update = now\<rparr> (ag_venues ag)"
  "ag_last_published (with_message ops ag v b now) = ag_last_published ag"
  "ag_update_count (with_message ops ag v b now) = ag_update_count ag"
  "ag_duplicate_count (with_message ops ag v b now) = ag_duplicate_count ag"
  "ag_parse_histogram (with_message ops ag v b now) = record_duration ops (ag_parse_histogram ag)
       (duration_since (parsed_at b) (parse_started_at b))"
  by (simp_all add: with_message_def)

lemma record_and_publish_cases:
  assumes "bt_sorted (ag_venues ag)"
  obtains (nothing) "record_and_publish ops ag v b (now, t1, t2) = Done (with_message ops ag v b now, None)"
      "merge (fresh_books (ag_venues (with_message ops ag v b now)) now) = None"
  | (duplicate) s prev where "record_and_publish ops ag v b (now, t1, t2) =
        Done ((with_message ops ag v b now)\<lparr>ag_last_published := Some s,
          ag_duplicate_count := ag_duplicate_count ag + 1\<rparr>, None)"
      "merge (fresh_books (ag_venues (with_message ops ag v b now)) now) = Some s"
      "ag_last_published ag = Some prev" "summary_eq prev s"
  | (publish) s mh th where "record_and_publish ops ag v b (now, t1, t2) =
        Done ((with_message ops ag v b now)\<lparr>ag_last_published := Some s,
          ag_merge_publish_histogram := mh, ag_total_histogram := th,
          ag_update_count := ag_update_count ag + 1\<rparr>, Some s)"
      "merge (fresh_books (ag_venues (with_message ops ag v b now)) now) = Some s"
      "\<And>prev. ag_last_published ag = Some prev \<Longrightarrow> \<not> summary_eq prev s"
proof -
  let ?ag = "with_message ops ag v b now"
  have "bt_sorted (ag_venues ?ag)" using assms by (simp add: bt_sorted_insert)
  note fresh = fresh_venues_eq(1) [OF this, of now]
  have eq: "record_and_publish ops ag v b (now, t1, t2) =
    (case merge (fresh_books (ag_venues ?ag) now) of
       None \<Rightarrow> Done (?ag, None)
     | Some s \<Rightarrow>
         if (case ag_last_published ag of None \<Rightarrow> False | Some prev \<Rightarrow> summary_eq prev s)
         then Done (?ag\<lparr>ag_last_published := Some s, ag_duplicate_count := ag_duplicate_count ag + 1\<rparr>, None)
         else Done (?ag\<lparr>ag_last_published := Some s,
           ag_merge_publish_histogram := record_duration ops (ag_merge_publish_histogram ag)
             (duration_since t1 (parsed_at b)),
           ag_total_histogram := record_duration ops (ag_total_histogram ag)
             (duration_since t2 (parse_started_at b)),
           ag_update_count := ag_update_count ag + 1\<rparr>, Some s))"
    using fresh by (simp add: record_and_publish_def with_message_def Let_def split: option.split)
  show ?thesis
  proof (cases "merge (fresh_books (ag_venues ?ag) now)")
    case None
    show ?thesis by (rule nothing) (simp_all only: eq None option.case)
  next
    case (Some s)
    show ?thesis
    proof (cases "\<exists>prev. ag_last_published ag = Some prev \<and> summary_eq prev s")
      case True
      then obtain prev where prev: "ag_last_published ag = Some prev" "summary_eq prev s" by blast
      show ?thesis by (rule duplicate [of s prev]) (simp_all only: eq Some prev option.case if_True)
    next
      case False
      then have new: "(case ag_last_published ag of None \<Rightarrow> False | Some prev \<Rightarrow> summary_eq prev s) = False"
        by (simp split: option.splits)
      show ?thesis
        by (rule publish) (simp_all only: eq Some new option.case if_False, use False in blast)
    qed
  qed
qed

text \<open>The states the task can be in.\<close>

inductive agg_reachable :: "'h histogram_ops \<Rightarrow> 'h aggregator \<Rightarrow> bool" for ops where
  agg_new: "agg_reachable ops (aggregator_new ops)"
| agg_message: "agg_reachable ops ag \<Longrightarrow> record_and_publish ops ag v b t = Done (ag', sent) \<Longrightarrow>
    agg_reachable ops ag'"
| agg_report: "agg_reachable ops ag \<Longrightarrow> agg_reachable ops (fst (log_report ops ag n window))"

lemma log_report_simps [simp]:
  "ag_venues (fst (log_report ops ag n w)) = ag_venues ag"
  "ag_last_published (fst (log_report ops ag n w)) = ag_last_published ag"
  "ag_update_count (fst (log_report ops ag n w)) = ag_update_count ag"
  "ag_duplicate_count (fst (log_report ops ag n w)) = ag_duplicate_count ag"
  "ag_parse_histogram (fst (log_report ops ag n w)) = h_reset ops (ag_parse_histogram ag)"
  by (simp_all add: log_report_def Let_def)

lemma record_and_publish_venues:
  assumes "bt_sorted (ag_venues ag)" "record_and_publish ops ag v b (now, t1, t2) = Done (ag', sent)"
  shows "ag_venues ag' = bt_insert v \<lparr>vs_book = b, vs_last_update = now\<rparr> (ag_venues ag)"
    "ag_parse_histogram ag' = record_duration ops (ag_parse_histogram ag)
       (duration_since (parsed_at b) (parse_started_at b))"
  using assms(2) by (cases rule: record_and_publish_cases [OF assms(1), of ops v b now t1 t2]; auto)+

lemma reachable_sorted: "agg_reachable ops ag \<Longrightarrow> bt_sorted (ag_venues ag)"
proof (induction rule: agg_reachable.induct)
  case agg_new
  show ?case by (simp add: aggregator_new_def bt.invar_empty)
next
  case (agg_message ag v b t ag' sent)
  obtain now t1 t2 where "t = (now, t1, t2)" by (cases t)
  with agg_message show ?case
    using record_and_publish_venues(1) by (metis bt_sorted_insert)
qed simp

section \<open>Runs\<close>

text \<open>A step never panics; a message leaves the map sorted and not empty.\<close>

lemma record_and_publish_done:
  assumes "bt_sorted (ag_venues ag)"
  obtains ag' sent where "record_and_publish ops ag v b t = Done (ag', sent)" "bt_sorted (ag_venues ag')"
    "ag_venues ag' \<noteq> []"
proof -
  obtain now t1 t2 where t: "t = (now, t1, t2)" by (cases t)
  have "bt_insert v \<lparr>vs_book = b, vs_last_update = now\<rparr> (ag_venues ag) \<noteq> []"
    using bt_insert_keys [of v "\<lparr>vs_book = b, vs_last_update = now\<rparr>" "ag_venues ag"] by force
  with assms show ?thesis
    by (cases rule: record_and_publish_cases [OF assms, of ops v b now t1 t2])
      (auto intro!: that simp: t bt_sorted_insert)
qed

fun published_of :: "emitted list \<Rightarrow> summary list" where
  "published_of [] = []"
| "published_of (Published s # out) = s # published_of out"
| "published_of (Reported r # out) = published_of out"

text \<open>Equality of summaries is symmetric and transitive, though not reflexive on NaN.\<close>

lemma level_msg_eq_sym: "level_msg_eq a b \<Longrightarrow> level_msg_eq b a"
  by (simp add: level_msg_eq_def feq_sym)

lemma level_msg_eq_trans: "level_msg_eq a b \<Longrightarrow> level_msg_eq b c \<Longrightarrow> level_msg_eq a c"
  by (auto simp: level_msg_eq_def intro: feq_trans)

lemma summary_eq_sym: "summary_eq a b \<Longrightarrow> summary_eq b a"
  by (auto simp: summary_eq_def list_all2_conv_all_nth intro: feq_sym level_msg_eq_sym)

lemma summary_eq_trans: "summary_eq a b \<Longrightarrow> summary_eq b c \<Longrightarrow> summary_eq a c"
  using list_all2_trans [where ?P1.0 = level_msg_eq and ?P2.0 = level_msg_eq and ?P3.0 = level_msg_eq]
  by (auto simp: summary_eq_def intro: feq_trans level_msg_eq_trans)

definition same_summary :: "summary \<Rightarrow> summary \<Rightarrow> bool" where
  "same_summary a b \<longleftrightarrow> a = b \<or> summary_eq a b"

lemma same_summary_new: "same_summary a b \<Longrightarrow> \<not> summary_eq b c \<Longrightarrow> \<not> summary_eq a c"
  by (metis same_summary_def summary_eq_sym summary_eq_trans)

lemma same_summary_trans: "same_summary a b \<Longrightarrow> summary_eq b c \<Longrightarrow> same_summary a c"
  by (auto simp: same_summary_def intro: summary_eq_trans)

text \<open>The last summary sent is the one remembered, up to duplicates since.\<close>

definition remembers :: "'h aggregator \<Rightarrow> summary option \<Rightarrow> bool" where
  "remembers ag sent \<longleftrightarrow>
     (\<forall>a. sent = Some a \<longrightarrow> (\<exists>l. ag_last_published ag = Some l \<and> same_summary a l))"

lemma record_and_publish_remembers:
  assumes "bt_sorted (ag_venues ag)" "remembers ag prev"
    "record_and_publish ops ag v b t = Done (ag', sent)"
  shows "sent = None \<Longrightarrow> remembers ag' prev \<and> ag_update_count ag' = ag_update_count ag"
    "sent = Some s \<Longrightarrow> remembers ag' (Some s) \<and> ag_update_count ag' = ag_update_count ag + 1
       \<and> (\<forall>a. prev = Some a \<longrightarrow> \<not> summary_eq a s)"
proof -
  obtain now t1 t2 where t: "t = (now, t1, t2)" by (cases t)
  have "case sent of
      None \<Rightarrow> remembers ag' prev \<and> ag_update_count ag' = ag_update_count ag
    | Some s \<Rightarrow> remembers ag' (Some s) \<and> ag_update_count ag' = ag_update_count ag + 1
        \<and> (\<forall>a. prev = Some a \<longrightarrow> \<not> summary_eq a s)"
    using assms(1)
  proof (cases rule: record_and_publish_cases
      [where ops = ops and v = v and b = b and now = now and ?t1.0 = t1 and ?t2.0 = t2])
    case nothing
    with assms(2,3) t show ?thesis by (auto simp: remembers_def)
  next
    case (duplicate s l)
    with assms(2,3) t show ?thesis by (auto simp: remembers_def intro: same_summary_trans)
  next
    case (publish s mh th)
    have out: "sent = Some s" "ag_last_published ag' = Some s"
      "ag_update_count ag' = ag_update_count ag + 1"
      using assms(3) t publish(1) by auto
    have "\<forall>a. prev = Some a \<longrightarrow> \<not> summary_eq a s"
      using assms(2) publish(3) by (auto simp: remembers_def dest: same_summary_new)
    with out show ?thesis by (simp add: remembers_def same_summary_def)
  qed
  then show "sent = None \<Longrightarrow> remembers ag' prev \<and> ag_update_count ag' = ag_update_count ag"
    "sent = Some s \<Longrightarrow> remembers ag' (Some s) \<and> ag_update_count ag' = ag_update_count ag + 1
       \<and> (\<forall>a. prev = Some a \<longrightarrow> \<not> summary_eq a s)"
    by auto
qed

definition run_facts ::
    "'h aggregator \<Rightarrow> summary option \<Rightarrow> ('h aggregator \<times> emitted list \<times> exit option) outcome \<Rightarrow> bool" where
  "run_facts ag prev res \<longleftrightarrow> (\<exists>ag' out ex. res = Done (ag', out, ex)
     \<and> successively (\<lambda>a b. \<not> summary_eq a b) (case prev of None \<Rightarrow> published_of out | Some a \<Rightarrow> a # published_of out)
     \<and> ag_update_count ag' = ag_update_count ag + word_of_nat (length (published_of out)))"

lemma run_loop_facts:
  assumes "bt_sorted (ag_venues ag)" "remembers ag prev"
  shows "run_facts ag prev (run_loop ops started_at ag n es)"
  using assms
proof (induction ops started_at ag n es arbitrary: prev rule: run_loop.induct)
  case (1 ops started_at ag n)
  show ?case by (simp add: run_facts_def split: option.split)
next
  case (2 ops started_at ag n v b t es)
  obtain ag' sent where step: "record_and_publish ops ag v b t = Done (ag', sent)"
    and sorted: "bt_sorted (ag_venues ag')" using "2.prems"(1) by (rule record_and_publish_done)
  note mem = record_and_publish_remembers [OF "2.prems" step]
  show ?case
  proof (cases sent)
    case None
    with mem have "remembers ag' prev" "ag_update_count ag' = ag_update_count ag" by simp_all
    with "2.IH" [OF sorted, of prev] show ?thesis
      by (auto simp: run_facts_def step None)
  next
    case (Some s)
    with mem have "remembers ag' (Some s)" "ag_update_count ag' = ag_update_count ag + 1"
      "\<forall>a. prev = Some a \<longrightarrow> \<not> summary_eq a s" by simp_all
    with "2.IH" [OF sorted, of "Some s"] obtain ag2 out ex where
      run: "run_loop ops started_at ag' n es = Done (ag2, out, ex)"
      and succ: "successively (\<lambda>a b. \<not> summary_eq a b) (s # published_of out)"
      and count: "ag_update_count ag2 = ag_update_count ag + 1 + word_of_nat (length (published_of out))"
      by (auto simp: run_facts_def)
    have "successively (\<lambda>a b. \<not> summary_eq a b)
        (case prev of None \<Rightarrow> s # published_of out | Some a \<Rightarrow> a # s # published_of out)"
      using succ \<open>\<forall>a. prev = Some a \<longrightarrow> \<not> summary_eq a s\<close> by (simp split: option.split)
    with run count show ?thesis
      unfolding run_facts_def
      by (intro exI [of _ ag2] exI [of _ "Published s # out"] exI [of _ ex]) (simp add: step Some split: option.splits)
  qed
next
  case (3 ops started_at ag n es)
  show ?case by (simp add: run_facts_def split: option.split)
next
  case (4 ops started_at ag n now es)
  then show ?case by (auto simp: run_facts_def split: option.split)
next
  case (5 ops started_at ag n es)
  obtain ag' r where rep: "log_report ops ag n REPORT_INTERVAL = (ag', r)" by fastforce
  then have ag': "ag' = fst (log_report ops ag n REPORT_INTERVAL)" by simp
  have inv: "bt_sorted (ag_venues ag')" "remembers ag' prev"
    and count: "ag_update_count ag' = ag_update_count ag"
    using "5.prems" unfolding ag' by (simp_all add: remembers_def)
  have "run_facts ag' prev (run_loop ops started_at ag' (ag_update_count ag') es)"
    by (rule "5.IH" [OF rep [symmetric] refl inv])
  then show ?case by (cases prev) (auto simp: run_facts_def rep count)
qed

text \<open>When the task returns, as a function of the events alone.\<close>

fun exit_spec :: "bool \<Rightarrow> instant \<Rightarrow> event list \<Rightarrow> exit option" where
  "exit_spec no_book started_at [] = None"
| "exit_spec no_book started_at (Message v b t # es) = exit_spec False started_at es"
| "exit_spec no_book started_at (Closed # es) = Some Channel_Closed"
| "exit_spec no_book started_at (Grace_Tick now # es) =
     (if past_grace started_at now no_book then Some No_Data else exit_spec no_book started_at es)"
| "exit_spec no_book started_at (Report_Tick # es) = exit_spec no_book started_at es"

lemma run_loop_exit:
  "bt_sorted (ag_venues ag) \<Longrightarrow> \<exists>ag' out. run_loop ops started_at ag n es =
     Done (ag', out, exit_spec (ag_venues ag = []) started_at es)"
proof (induction ops started_at ag n es rule: run_loop.induct)
  case (2 ops started_at ag n v b t es)
  obtain ag' sent where step: "record_and_publish ops ag v b t = Done (ag', sent)"
    and ag': "bt_sorted (ag_venues ag')" "ag_venues ag' \<noteq> []"
    using "2.prems" by (rule record_and_publish_done)
  from "2.IH" [OF ag'(1)] ag'(2) show ?case by (auto simp: step)
next
  case (4 ops started_at ag n now es)
  then show ?case by (auto simp: bt_is_empty_def)
next
  case (5 ops started_at ag n es)
  obtain ag' r where rep: "log_report ops ag n REPORT_INTERVAL = (ag', r)" by fastforce
  then have "ag_venues ag' = ag_venues ag" by (metis log_report_simps(1) fst_conv)
  with "5.IH" [OF rep [symmetric] refl] "5.prems" show ?case by (auto simp: rep)
qed auto

definition quiet :: "event \<Rightarrow> bool" where
  "quiet e \<longleftrightarrow> (case e of Message v b t \<Rightarrow> False | Closed \<Rightarrow> False | _ \<Rightarrow> True)"

lemma exit_spec_not_empty: "exit_spec False started_at es \<noteq> Some No_Data"
  by (induction False started_at es rule: exit_spec.induct) (auto simp: past_grace_def)

definition tick_past_grace :: "instant \<Rightarrow> event list \<Rightarrow> bool" where
  "tick_past_grace started_at es \<longleftrightarrow> (\<exists>pre now post. es = pre @ Grace_Tick now # post
     \<and> GRACE < duration_since now started_at \<and> list_all quiet pre)"

lemma tick_past_grace_Nil: "\<not> tick_past_grace started_at []"
  by (simp add: tick_past_grace_def)

lemma tick_past_grace_Cons:
  "tick_past_grace started_at (e # es) \<longleftrightarrow>
     (\<exists>now. e = Grace_Tick now \<and> GRACE < duration_since now started_at)
       \<or> (quiet e \<and> tick_past_grace started_at es)"
proof
  assume "tick_past_grace started_at (e # es)"
  then obtain pre now post where "e # es = pre @ Grace_Tick now # post"
    "GRACE < duration_since now started_at" "list_all quiet pre"
    unfolding tick_past_grace_def by blast
  then show "(\<exists>now. e = Grace_Tick now \<and> GRACE < duration_since now started_at)
       \<or> (quiet e \<and> tick_past_grace started_at es)"
    by (cases pre) (auto simp: tick_past_grace_def)
next
  assume "(\<exists>now. e = Grace_Tick now \<and> GRACE < duration_since now started_at)
       \<or> (quiet e \<and> tick_past_grace started_at es)"
  then show "tick_past_grace started_at (e # es)"
  proof
    assume "\<exists>now. e = Grace_Tick now \<and> GRACE < duration_since now started_at"
    then show ?thesis unfolding tick_past_grace_def by (auto intro!: exI [of _ "[]"])
  next
    assume "quiet e \<and> tick_past_grace started_at es"
    then obtain pre now post where "e # es = (e # pre) @ Grace_Tick now # post"
      "GRACE < duration_since now started_at" "list_all quiet (e # pre)"
      unfolding tick_past_grace_def by auto
    then show ?thesis unfolding tick_past_grace_def by blast
  qed
qed

lemma exit_spec_No_Data: "exit_spec True started_at es = Some No_Data \<longleftrightarrow> tick_past_grace started_at es"
proof (induction es)
  case (Cons e es)
  then show ?case
    by (cases e)
      (auto simp: tick_past_grace_Cons quiet_def past_grace_def exit_spec_not_empty)
qed (simp add: tick_past_grace_Nil)

section \<open>Properties\<close>

text \<open>A concrete histogram: the list of its samples, each quantile read as the last one.\<close>

definition sample_ops :: "u64 list histogram_ops" where
  "sample_ops = \<lparr>h_new = (\<lambda>_. []), h_record = (\<lambda>x h. Some (x # h)),
     h_quantile = (\<lambda>q h. case h of [] \<Rightarrow> 0 | x # _ \<Rightarrow> x), h_reset = (\<lambda>_. [])\<rparr>"

definition sample_book :: book where
  "sample_book = \<lparr>bids = [(Price 0x4024000000000000, Amount 0x3ff0000000000000)],
     asks = [(Price 0x4026000000000000, Amount 0x3ff0000000000000)],
     last_update_id = 7, parse_started_at = 3, parsed_at = 4\<rparr>"

text \<open>
  C21. What a message publishes is the merge of exactly the books whose venue was heard from
  within its staleness threshold, judged at that message's instant; no level of a staler
  venue is shown.
\<close>

theorem published_from_fresh_venues:
  assumes "agg_reachable ops ag"
    and "record_and_publish ops ag v b (now, t1, t2) = Done (ag', Some s)"
  shows "merge (fresh_books (ag_venues ag') now) = Some s
    \<and> (\<forall>w bk. bt_get (fresh_books (ag_venues ag') now) w = Some bk \<longleftrightarrow>
        (\<exists>st. bt_get (ag_venues ag') w = Some st \<and> vs_book st = bk
           \<and> duration_since now (vs_last_update st) < threshold_ns w))
    \<and> (\<forall>l\<in>set (sm_bids s) \<union> set (sm_asks s). \<exists>w st. bt_get (ag_venues ag') w = Some st
        \<and> duration_since now (vs_last_update st) < threshold_ns w \<and> lv_exchange l = venue_display w)"
proof -
  have srt: "bt_sorted (ag_venues ag)" using assms(1) by (rule reachable_sorted)
  have ag': "ag_venues ag' = bt_insert v \<lparr>vs_book = b, vs_last_update = now\<rparr> (ag_venues ag)"
    by (rule record_and_publish_venues(1) [OF srt assms(2)])
  have srt': "bt_sorted (ag_venues ag')" using srt by (simp add: ag' bt_sorted_insert)
  have m: "merge (fresh_books (ag_venues ag') now) = Some s"
    using assms(2) by (cases rule: record_and_publish_cases [OF srt, of ops v b now t1 t2]) (auto simp: ag')
  have get: "bt_get (fresh_books (ag_venues ag') now) w = Some bk \<longleftrightarrow>
      (\<exists>st. bt_get (ag_venues ag') w = Some st \<and> vs_book st = bk
         \<and> duration_since now (vs_last_update st) < threshold_ns w)" for w bk
    using fresh_books_get [OF srt', of now w bk] by (simp add: fresh_at_def)
  have "\<exists>w st. bt_get (ag_venues ag') w = Some st
      \<and> duration_since now (vs_last_update st) < threshold_ns w \<and> lv_exchange l = venue_display w"
    if shown: "l \<in> set (sm_bids s) \<union> set (sm_asks s)" for l
  proof -
    obtain w bk where w: "(w, bk) \<in> set (fresh_books (ag_venues ag') now)"
      "lv_exchange l = venue_display w" by (rule merge_levels [OF m shown])
    then have "bt_get (fresh_books (ag_venues ag') now) w = Some bk"
      using bt.iter_get [OF fresh_venues_eq(2) [OF srt']] by (simp add: bt_iter_def)
    with w(2) get show ?thesis by blast
  qed
  with m get show ?thesis by blast
qed

theorem published_from_fresh_venues_witness:
  "merge (fresh_books [(Binance, \<lparr>vs_book = sample_book, vs_last_update = 5\<rparr>)] 5) \<noteq> None"
proof -
  let ?ag = "aggregator_new sample_ops"
  let ?res = "record_and_publish sample_ops ?ag Binance sample_book (5, 6, 7)"
  have "case ?res of Panic \<Rightarrow> False
    | Done (ag', sent) \<Rightarrow> sent \<noteq> None
        \<and> ag_venues ag' = [(Binance, \<lparr>vs_book = sample_book, vs_last_update = 5\<rparr>)]" by code_simp
  then obtain ag' s where res: "?res = Done (ag', Some s)"
    and ag': "ag_venues ag' = [(Binance, \<lparr>vs_book = sample_book, vs_last_update = 5\<rparr>)]"
    by (auto split: outcome.splits prod.splits)
  show ?thesis using published_from_fresh_venues [OF agg_new res] by (simp add: ag')
qed

text \<open>
  C22. Whatever the events, the task never sends a summary equal to the one it sent before it,
  even with duplicates and unmergeable books in between, and its update counter is the number
  of summaries sent (modulo \<open>2\<^sup>6\<^sup>4\<close>).
\<close>

theorem run_publishes_changes_only:
  "\<exists>ag out ex. run ops started_at es = Done (ag, out, ex)
     \<and> successively (\<lambda>a b. \<not> summary_eq a b) (published_of out)
     \<and> ag_update_count ag = word_of_nat (length (published_of out))"
proof -
  have "bt_sorted (ag_venues (aggregator_new ops))" "remembers (aggregator_new ops) None"
    "ag_update_count (aggregator_new ops) = 0"
    by (simp_all add: aggregator_new_def bt.invar_empty remembers_def)
  then show ?thesis
    using run_loop_facts [of "aggregator_new ops" None ops started_at 0 es]
    by (simp add: run_facts_def run_def)
qed

text \<open>
  C23. The task gives up for want of data exactly when a grace tick finds more than sixty
  seconds gone since the start and no book and no close of the channel came before it.
\<close>

theorem run_gives_up_iff:
  "(\<exists>ag out. run ops started_at es = Done (ag, out, Some No_Data)) \<longleftrightarrow>
     (\<exists>pre now post. es = pre @ Grace_Tick now # post \<and> GRACE < duration_since now started_at
        \<and> list_all quiet pre)"
proof -
  have new: "ag_venues (aggregator_new ops) = []" by (simp add: aggregator_new_def bt_empty_def)
  then have "bt_sorted (ag_venues (aggregator_new ops))" by (simp add: bt_sorted_def)
  then obtain ag out where "run ops started_at es = Done (ag, out, exit_spec True started_at es)"
    using run_loop_exit [of "aggregator_new ops" ops started_at 0 es] by (auto simp: run_def new)
  then show ?thesis by (simp add: exit_spec_No_Data tick_past_grace_def)
qed

end
