(* ===== verification/Client.thy ===== *)
theory Client
  imports Merge
begin

text \<open>
  \<open>src/bin/client.rs\<close>: the terminal viewer. A frame is a list of Unicode scalar values; the
  clock readings are arguments, hash maps and sets are functions and sets. Slicing a cell past
  its end would panic, so the drawing functions return an outcome.
\<close>

section \<open>Text\<close>

type_synonym chars = "nat list"

definition ascii :: "string \<Rightarrow> chars" where
  "ascii s = map char_code s"

definition blanks :: "nat \<Rightarrow> chars" where
  "blanks n = replicate n 32"

definition ESC :: nat where
  "ESC = 27"

text \<open>The escape \<open>ESC [ code m\<close>, and its reset.\<close>

definition sgr :: "string \<Rightarrow> chars" where
  "sgr code = [ESC, 91] @ ascii code @ [109]"

section \<open>Constants\<close>

definition ROWS :: nat where
  "ROWS = 10"

definition VENUES :: "venue list" where
  "VENUES = [Binance, Bitstamp, Kraken]"

definition TABLE_WIDTH :: nat where
  "TABLE_WIDTH = 72"

definition CELL_WIDTH :: nat where
  "CELL_WIDTH = 35"

definition CELL_FG_SPLIT :: nat where
  "CELL_FG_SPLIT = 26"

definition BAR_BG_BID :: string where
  "BAR_BG_BID = ''48;5;22''"

definition BAR_BG_ASK :: string where
  "BAR_BG_ASK = ''48;5;52''"

section \<open>Statistics\<close>

record stats =
  st_count :: u64
  st_rate :: f64
  st_last_calc :: instant
  st_count_at_last_calc :: u64

definition stats_new :: "instant \<Rightarrow> stats" where
  "stats_new now = \<lparr>st_count = 0, st_rate = f64_zero False, st_last_calc = now, st_count_at_last_calc = 0\<rparr>"

definition f64_fifth :: f64 where "f64_fifth = 0x3fc999999999999a"

text \<open>The two readings are those of \<open>elapsed()\<close> and of the restart.\<close>

definition stats_record :: "stats \<Rightarrow> instant \<Rightarrow> instant \<Rightarrow> stats" where
  "stats_record st t1 t2 =
     (let st = st\<lparr>st_count := st_count st + 1\<rparr>;
          elapsed = as_secs_f64 (duration_since t1 (st_last_calc st))
      in if flt f64_fifth elapsed
         then st\<lparr>st_rate := fdiv (f64_of_nat (unat (st_count st - st_count_at_last_calc st))) elapsed,
                 st_count_at_last_calc := st_count st, st_last_calc := t2\<rparr>
         else st)"

section \<open>Venue tracking\<close>

type_synonym venue_tracker = "venue \<Rightarrow> instant option"

definition tracker_new :: "venue list \<Rightarrow> instant \<Rightarrow> venue_tracker" where
  "tracker_new venues now = map_of (map (\<lambda>v. (v, now)) venues)"

fun present_in :: "venue list \<Rightarrow> level_msg list \<Rightarrow> venue set" where
  "present_in venues [] = {}"
| "present_in venues (l # ls) =
     set (filter (\<lambda>v. venue_display v = lv_exchange l) venues) \<union> present_in venues ls"

definition tracker_update ::
    "venue_tracker \<Rightarrow> venue list \<Rightarrow> summary \<Rightarrow> instant \<Rightarrow> venue_tracker \<times> venue set" where
  "tracker_update last_seen venues summary now =
     (let present = present_in venues (sm_bids summary @ sm_asks summary)
      in (\<lambda>v. if v \<in> present then Some now else last_seen v, present))"

section \<open>Widths\<close>

definition is_ascii_alphabetic :: "nat \<Rightarrow> bool" where
  "is_ascii_alphabetic c \<longleftrightarrow> 65 \<le> c \<and> c \<le> 90 \<or> 97 \<le> c \<and> c \<le> 122"

fun skip_escape :: "chars \<Rightarrow> chars" where
  "skip_escape [] = []"
| "skip_escape (c # s) = (if is_ascii_alphabetic c then s else skip_escape s)"

lemma skip_escape_length: "length (skip_escape s) \<le> length s"
  by (induction s) auto

text \<open>\<open>chars.next() == Some('[')\<close> consumes the character it looks at.\<close>

function visible_len :: "chars \<Rightarrow> nat" where
  "visible_len [] = 0"
| "visible_len (c # s) =
     (if c = ESC
      then (case s of
              [] \<Rightarrow> 0
            | d # r \<Rightarrow> if d = 91 then visible_len (skip_escape r) else visible_len r)
      else 1 + visible_len s)"
  by pat_completeness auto
termination
  by (relation "measure length") (auto simp: le_imp_less_Suc less_Suc_eq_le skip_escape_length le_SucI)

section \<open>Drawing\<close>

definition colourize :: "chars \<Rightarrow> chars \<Rightarrow> bool \<Rightarrow> chars" where
  "colourize s code colour = (if colour then code @ s @ sgr ''0'' else s)"

definition border :: "nat \<Rightarrow> nat \<Rightarrow> chars" where
  "border left right = [left] @ replicate (TABLE_WIDTH + 2) 0x2500 @ [right, 10]"

definition row :: "chars \<Rightarrow> chars" where
  "row content = [0x2502, 32] @ content @ blanks (TABLE_WIDTH - visible_len content) @ [32, 0x2502, 10]"

datatype fill_from = From_Left | From_Right

text \<open>The runs between neighbouring boundaries, each with both colours restated.\<close>

fun shade_runs :: "(nat \<Rightarrow> string) \<Rightarrow> chars \<Rightarrow> (nat \<times> nat) list \<Rightarrow> chars outcome" where
  "shade_runs attr plain [] = Done []"
| "shade_runs attr plain ((a, b) # ws) =
     (if a = b then shade_runs attr plain ws
      else if length plain < b then Panic
      else bind_outcome (shade_runs attr plain ws) (\<lambda>out.
             Done (sgr (attr a) @ take (b - a) (drop a plain) @ out)))"

definition bar_bounds :: "nat \<Rightarrow> fill_from \<Rightarrow> nat \<times> nat" where
  "bar_bounds fill_len side =
     (case side of
        From_Left \<Rightarrow> (0, fill_len)
      | From_Right \<Rightarrow> (CELL_WIDTH - fill_len, CELL_WIDTH))"

definition cell_attr :: "string \<Rightarrow> string \<Rightarrow> nat \<times> nat \<Rightarrow> nat \<Rightarrow> string" where
  "cell_attr price_fg bar_bg bar start =
     (if start < CELL_FG_SPLIT then price_fg else ''2'') @ '';''
     @ (if fst bar \<le> start \<and> start < snd bar then bar_bg else ''49'')"

definition shade_cell :: "chars \<Rightarrow> string \<Rightarrow> string \<Rightarrow> nat \<Rightarrow> fill_from \<Rightarrow> chars outcome" where
  "shade_cell plain price_fg bar_bg fill_len side =
     (let bar = bar_bounds (min fill_len CELL_WIDTH) side;
          boundaries = sort [0, min CELL_FG_SPLIT CELL_WIDTH, fst bar, snd bar, CELL_WIDTH]
      in bind_outcome (shade_runs (cell_attr price_fg bar_bg bar) plain (zip boundaries (tl boundaries)))
           (\<lambda>out. Done (out @ sgr ''0'')))"

text \<open>\<open>f64::clamp\<close>; NaN stays NaN.\<close>

definition fclamp :: "f64 \<Rightarrow> f64 \<Rightarrow> f64 \<Rightarrow> f64" where
  "fclamp lo hi x = (if flt x lo then lo else if flt hi x then hi else x)"

definition fill_length :: "f64 \<Rightarrow> f64 \<Rightarrow> nat" where
  "fill_length amount max_amount =
     (let width = f64_of_nat CELL_WIDTH
      in if flt (f64_zero False) max_amount
         then f64_to_usize (fclamp (f64_zero False) width (fround (fmul (fdiv amount max_amount) width)))
         else 0)"

definition plain_cell :: "level_msg \<Rightarrow> chars" where
  "plain_cell l = ascii (pad_left 12 (fmt_f64 8 (lv_price l)) @ '' '' @ pad_left 13 (fmt_f64 8 (lv_amount l))
     @ '' '' @ pad_right 8 (lv_exchange l))"

definition level_cell ::
    "level_msg option \<Rightarrow> bool \<Rightarrow> string \<Rightarrow> string \<Rightarrow> f64 \<Rightarrow> fill_from \<Rightarrow> chars outcome" where
  "level_cell level colour price_fg bar_bg max_amount side =
     (case level of
        None \<Rightarrow> Done (blanks CELL_WIDTH)
      | Some l \<Rightarrow>
          if \<not> colour then Done (plain_cell l)
          else shade_cell (plain_cell l) price_fg bar_bg (fill_length (lv_amount l) max_amount) side)"

text \<open>\<open>slice.get(i)\<close> and \<open>slice.first()\<close>\<close>

definition nth_option :: "'a list \<Rightarrow> nat \<Rightarrow> 'a option" where
  "nth_option xs i = (if i < length xs then Some (xs ! i) else None)"

definition spread_line :: "summary \<Rightarrow> stats \<Rightarrow> bool \<Rightarrow> chars" where
  "spread_line summary stats colour =
     (let mid = (case (nth_option (sm_bids summary) 0, nth_option (sm_asks summary) 0) of
            (Some b, Some a) \<Rightarrow> Some (fdiv (fadd (lv_price b) (lv_price a)) 0x4000000000000000)
          | _ \<Rightarrow> None);
          bps = (case mid of
            None \<Rightarrow> ''n/a''
          | Some m \<Rightarrow>
              if \<not> feq m (f64_zero False)
              then fmt_f64 1 (fmul (fdiv (sm_spread summary) m) 0x40c3880000000000) @ '' bps''
              else ''n/a'');
          spread_field = ascii (pad_right 40
            (''spread '' @ pad_left 12 (fmt_f64 8 (sm_spread summary)) @ '' ('' @ bps @ '')''));
          spread_field = (if flt (sm_spread summary) (f64_zero False)
            then colourize spread_field (sgr ''1;31'') colour else spread_field);
          rate_text = (if is_finite (st_rate stats) then fmt_f64 1 (st_rate stats) @ ''/s'' else ''-.-/s'')
      in spread_field @ ascii (pad_left 8 (show_nat (unat (st_count stats))) @ '' updates   ''
           @ pad_right 8 rate_text))"

definition two_digits :: "nat \<Rightarrow> string" where
  "two_digits n = (if n < 10 then ''0'' else []) @ show_nat n"

text \<open>Of the seconds since the epoch; 0 before it.\<close>

definition now_hms :: "nat \<Rightarrow> string" where
  "now_hms secs = two_digits ((secs div 3600) mod 24) @ '':'' @ two_digits ((secs div 60) mod 60)
     @ '':'' @ two_digits (secs mod 60)"

definition venue_label :: "venue_tracker \<Rightarrow> venue set \<Rightarrow> bool \<Rightarrow> instant \<Rightarrow> venue \<Rightarrow> chars" where
  "venue_label last_seen present colour now v =
     (if v \<in> present
      then colourize (ascii (venue_display v) @ [32, 0x25cf]) (sgr ''32'') colour
      else let elapsed = (case last_seen v of
                   None \<Rightarrow> f64_zero False | Some t \<Rightarrow> as_secs_f64 (duration_since now t))
           in colourize (ascii (venue_display v) @ [32, 0x25cb] @ ascii ('' stale '' @ fmt_f64 1 elapsed @ ''s''))
                (sgr ''31'') colour)"

fun join :: "chars \<Rightarrow> chars list \<Rightarrow> chars" where
  "join sep [] = []"
| "join sep [x] = x"
| "join sep (x # y # xs) = x @ sep @ join sep (y # xs)"

definition venue_status :: "venue list \<Rightarrow> venue_tracker \<Rightarrow> venue set \<Rightarrow> bool \<Rightarrow> instant \<Rightarrow> chars" where
  "venue_status venues last_seen present colour now =
     join (blanks 2) (map (venue_label last_seen present colour now) venues)"

text \<open>The rows of the book, row \<open>i\<close> of \<open>n\<close> first.\<close>

definition book_row :: "summary \<Rightarrow> bool \<Rightarrow> f64 \<Rightarrow> nat \<Rightarrow> chars outcome" where
  "book_row summary colour max_amount i =
     bind_outcome (level_cell (nth_option (sm_bids summary) i) colour ''32'' BAR_BG_BID max_amount From_Right) (\<lambda>bid.
       bind_outcome (level_cell (nth_option (sm_asks summary) i) colour ''31'' BAR_BG_ASK max_amount From_Left) (\<lambda>ask.
         Done (row (bid @ [32] @ ask))))"

fun concat_outcomes :: "chars outcome list \<Rightarrow> chars outcome" where
  "concat_outcomes [] = Done []"
| "concat_outcomes (x # xs) =
     bind_outcome x (\<lambda>a. bind_outcome (concat_outcomes xs) (\<lambda>b. Done (a @ b)))"

definition max_amount_of :: "summary \<Rightarrow> f64" where
  "max_amount_of summary =
     foldl fmax (f64_zero False) (map lv_amount (sm_bids summary @ sm_asks summary))"

definition render ::
    "venue list \<Rightarrow> venue_tracker \<Rightarrow> venue set \<Rightarrow> summary \<Rightarrow> stats \<Rightarrow> bool \<Rightarrow> instant \<Rightarrow> nat \<Rightarrow> chars outcome" where
  "render venues last_seen present summary stats colour now secs =
     (let home = (if colour then [ESC, 91, 72] else []);
          status = venue_status venues last_seen present colour now;
          pad = 56 - visible_len status
      in bind_outcome (concat_outcomes (map (book_row summary colour (max_amount_of summary)) [0 ..< ROWS]))
           (\<lambda>rows. Done (home @ border 0x250c 0x2510
              @ row (status @ blanks pad @ ascii (pad_left 16 (now_hms secs)))
              @ border 0x251c 0x2524
              @ row (ascii (pad_center 35 ''BIDS'' @ '' '' @ pad_center 35 ''ASKS''))
              @ border 0x251c 0x2524 @ rows @ border 0x251c 0x2524
              @ row (spread_line summary stats colour) @ border 0x2514 0x2518)))"

section \<open>The connection\<close>

text \<open>The readings made for one message: four of the monotonic clock, one of the wall clock.\<close>

record reading =
  rd_elapsed :: instant
  rd_restart :: instant
  rd_seen :: instant
  rd_now :: instant
  rd_secs :: nat

text \<open>A message, whose frame is then written (or not), or an error status of the stream.\<close>

datatype stream_event = Received_Summary summary reading bool | Status_Error

text \<open>
  The loop of \<open>connect_and_stream\<close> on a stream that ends with the list: the statistics and the
  tracker, the frames written, and whether it returned without an error.
\<close>

fun stream_loop :: "bool \<Rightarrow> stats \<Rightarrow> venue_tracker \<Rightarrow> stream_event list \<Rightarrow>
    (stats \<times> venue_tracker \<times> chars list \<times> bool) outcome" where
  "stream_loop colour st seen [] = Done (st, seen, [], True)"
| "stream_loop colour st seen (Status_Error # es) = Done (st, seen, [], False)"
| "stream_loop colour st seen (Received_Summary summary r written # es) =
     (let st = stats_record st (rd_elapsed r) (rd_restart r);
          (seen, present) = tracker_update seen VENUES summary (rd_seen r)
      in bind_outcome (render VENUES seen present summary st colour (rd_now r) (rd_secs r)) (\<lambda>frame.
           if written
           then bind_outcome (stream_loop colour st seen es) (\<lambda>(st', seen', frames, ok).
                  Done (st', seen', frame # frames, ok))
           else Done (st, seen, [], False)))"

text \<open>One attempt: None where connecting or the call fails; and the loop of attempts.\<close>

fun connect_and_stream :: "bool \<Rightarrow> stats \<Rightarrow> venue_tracker \<Rightarrow> stream_event list option \<Rightarrow>
    (stats \<times> venue_tracker \<times> chars list \<times> bool) outcome" where
  "connect_and_stream colour st seen None = Done (st, seen, [], False)"
| "connect_and_stream colour st seen (Some es) = stream_loop colour st seen es"

fun reconnect_loop :: "bool \<Rightarrow> stats \<Rightarrow> venue_tracker \<Rightarrow> stream_event list option list \<Rightarrow>
    (stats \<times> venue_tracker \<times> chars list) outcome" where
  "reconnect_loop colour st seen [] = Done (st, seen, [])"
| "reconnect_loop colour st seen (c # cs) =
     bind_outcome (connect_and_stream colour st seen c) (\<lambda>(st, seen, frames, ok).
       bind_outcome (reconnect_loop colour st seen cs) (\<lambda>(st', seen', frames').
         Done (st', seen', frames @ frames')))"

definition client :: "bool \<Rightarrow> instant \<Rightarrow> instant \<Rightarrow> stream_event list option list \<Rightarrow>
    (stats \<times> venue_tracker \<times> chars list) outcome" where
  "client colour t1 t2 cs = reconnect_loop colour (stats_new t1) (tracker_new VENUES t2) cs"

section \<open>Visible width\<close>

lemma visible_len_append:
  "ESC \<notin> set s \<Longrightarrow> visible_len (s @ t) = length s + visible_len t"
  by (induction s) auto

lemma visible_len_plain: "ESC \<notin> set s \<Longrightarrow> visible_len s = length s"
  using visible_len_append [of s "[]"] by simp

lemma skip_escape_append:
  "list_all (\<lambda>c. \<not> is_ascii_alphabetic c) s \<Longrightarrow> is_ascii_alphabetic c \<Longrightarrow> skip_escape (s @ c # t) = t"
  by (induction s) auto

text \<open>Codes of digits and semicolons.\<close>

definition code_ok :: "string \<Rightarrow> bool" where
  "code_ok code \<longleftrightarrow> list_all (\<lambda>c. is_digit c \<or> c = CHR '';'') code"

lemma code_ok_chars:
  assumes "code_ok code"
  shows "list_all (\<lambda>c. \<not> is_ascii_alphabetic c) (ascii code)" "109 \<notin> set (ascii code)" "10 \<notin> set (ascii code)"
proof -
  have "char_code CHR '';'' = 59" by (simp add: char_code_def)
  then have "c = 59 \<or> 48 \<le> c \<and> c \<le> 57" if "c \<in> set (ascii code)" for c
    using that assms by (auto simp: ascii_def code_ok_def list_all_iff is_digit_def)
  then show "list_all (\<lambda>c. \<not> is_ascii_alphabetic c) (ascii code)" "109 \<notin> set (ascii code)" "10 \<notin> set (ascii code)"
    by (fastforce simp: list_all_iff is_ascii_alphabetic_def)+
qed

lemma visible_len_sgr: "code_ok code \<Longrightarrow> visible_len (sgr code @ t) = visible_len t"
  using skip_escape_append [OF code_ok_chars(1), of code 109 t]
  by (simp add: sgr_def is_ascii_alphabetic_def)

lemma code_ok_append [simp]: "code_ok (a @ b) \<longleftrightarrow> code_ok a \<and> code_ok b"
  by (simp add: code_ok_def)

lemma code_ok_literals [simp]: "code_ok ''0''" "code_ok ''2''" "code_ok '';''" "code_ok ''49''"
  "code_ok ''31''" "code_ok ''32''" "code_ok ''1;31''" "code_ok BAR_BG_BID" "code_ok BAR_BG_ASK"
  by code_simp+

lemma code_ok_Cons [simp]: "code_ok []" "code_ok (CHR '';'' # s) \<longleftrightarrow> code_ok s"
  by (simp_all add: code_ok_def)

lemma cell_attr_ok: "code_ok price_fg \<Longrightarrow> code_ok bar_bg \<Longrightarrow> code_ok (cell_attr price_fg bar_bg bar i)"
  using code_ok_literals(4) by (simp add: cell_attr_def)

text \<open>A row with content that fits is exactly as wide as the borders.\<close>

lemma border_width: "left \<noteq> ESC \<Longrightarrow> right \<noteq> ESC \<Longrightarrow> visible_len (butlast (border left right)) = TABLE_WIDTH + 4"
  by (subst visible_len_plain) (auto simp: border_def ESC_def TABLE_WIDTH_def butlast_append)

section \<open>A terminal\<close>

text \<open>
  The reference for what a screen shows: each character with the colour code in force, where
  an escape sets the code and shows nothing.
\<close>

function paint :: "chars \<Rightarrow> chars \<Rightarrow> (nat \<times> chars) list" where
  "paint code [] = []"
| "paint code (c # s) =
     (if c = ESC
      then paint (takeWhile (\<lambda>d. d \<noteq> 109) (drop 1 s)) (drop 1 (dropWhile (\<lambda>d. d \<noteq> 109) (drop 1 s)))
      else (c, code) # paint code s)"
  by pat_completeness auto
termination
proof (relation "measure (\<lambda>(code, s). length s)", goal_cases)
  case (2 code c s)
  have "length (dropWhile (\<lambda>d. d \<noteq> 109) (drop 1 s)) \<le> length s"
    by (rule le_trans [OF length_dropWhile_le]) simp
  then show ?case by simp
qed auto

lemma paint_append: "ESC \<notin> set s \<Longrightarrow> paint code (s @ t) = map (\<lambda>c. (c, code)) s @ paint code t"
  by (induction s) auto

lemma paint_sgr: "code_ok code \<Longrightarrow> paint c (sgr code @ t) = paint (ascii code) t"
  using code_ok_chars(2) [of code]
  by (simp add: sgr_def takeWhile_append dropWhile_append)

text \<open>The runs paint each cell as its own position says, when that changes at boundaries only.\<close>

lemma shade_runs_paint:
  assumes attr: "\<forall>i j. i \<le> j \<longrightarrow> (\<forall>b\<in>B. \<not> (i < b \<and> b \<le> j)) \<longrightarrow> attr j = attr i"
    and all_ok: "\<forall>i. code_ok (attr i)" and esc: "ESC \<notin> set plain"
  shows "sorted (a # bs) \<Longrightarrow> \<forall>b\<in>B. b \<le> a \<or> b \<in> set bs \<Longrightarrow> last (a # bs) \<le> length plain \<Longrightarrow>
    \<exists>out. shade_runs attr plain (zip (a # bs) bs) = Done out
      \<and> (\<forall>code t. code_ok t \<longrightarrow> paint code (out @ sgr t) =
           map (\<lambda>i. (plain ! i, ascii (attr i))) [a ..< last (a # bs)])
      \<and> (\<forall>t. visible_len (out @ t) = last (a # bs) - a + visible_len t)"
proof (induction bs arbitrary: a)
  case Nil
  show ?case using paint_sgr [of _ _ "[]"] by simp
next
  case (Cons b bs)
  have ab: "a \<le> b" "sorted (b # bs)" using Cons.prems(1) by auto
  have lb: "b \<le> last (b # bs)" using ab(2) by (metis last_in_set list.distinct(1) list.set_cases set_ConsD sorted_simps(2) order_refl)
  have ok: "code_ok (attr i)" for i using all_ok by blast
  have B: "\<forall>c\<in>B. c \<le> b \<or> c \<in> set bs" using Cons.prems(2) ab(1) by auto
  obtain out where out: "shade_runs attr plain (zip (b # bs) bs) = Done out"
    "\<And>code t. code_ok t \<Longrightarrow> paint code (out @ sgr t) = map (\<lambda>i. (plain ! i, ascii (attr i))) [b ..< last (b # bs)]"
    "\<And>t. visible_len (out @ t) = last (b # bs) - b + visible_len t"
    using Cons.IH [OF ab(2) B] Cons.prems(3) by auto
  show ?case
  proof (cases "a = b")
    case True
    with out show ?thesis by auto
  next
    case False
    have len: "b \<le> length plain" using lb Cons.prems(3) by simp
    have same: "attr i = attr a" if "i \<in> {a ..< b}" for i
    proof -
      have "c \<le> a \<or> b \<le> c" if "c \<in> B" for c using Cons.prems(2) that ab(2) by auto
      then have "\<forall>c\<in>B. \<not> (a < c \<and> c \<le> i)" using that by fastforce
      with that attr show ?thesis by simp
    qed
    have run: "take (b - a) (drop a plain) = map (\<lambda>i. plain ! i) [a ..< b]"
      using len by (intro nth_equalityI) auto
    have esc': "ESC \<notin> set (take (b - a) (drop a plain))"
      using esc by (meson in_set_dropD in_set_takeD)
    have split: "[a ..< last (b # bs)] = [a ..< b] @ [b ..< last (b # bs)]"
      using ab(1) lb by (metis le_iff_add upt_add_eq_append)
    have "paint code ((sgr (attr a) @ take (b - a) (drop a plain) @ out) @ sgr t) =
        map (\<lambda>i. (plain ! i, ascii (attr i))) [a ..< last (b # bs)]" if "code_ok t" for code t
    proof -
      have "paint code ((sgr (attr a) @ take (b - a) (drop a plain) @ out) @ sgr t) =
          paint (ascii (attr a)) (take (b - a) (drop a plain) @ out @ sgr t)"
        by (simp add: paint_sgr [OF ok])
      also have "\<dots> = map (\<lambda>c. (c, ascii (attr a))) (take (b - a) (drop a plain))
          @ map (\<lambda>i. (plain ! i, ascii (attr i))) [b ..< last (b # bs)]"
        unfolding paint_append [OF esc'] out(2) [OF that] ..
      also have "map (\<lambda>c. (c, ascii (attr a))) (take (b - a) (drop a plain)) =
          map (\<lambda>i. (plain ! i, ascii (attr i))) [a ..< b]"
        unfolding run map_map
      proof (rule map_cong [OF refl])
        fix i assume "i \<in> set [a ..< b]"
        with same [of i] show "((\<lambda>c. (c, ascii (attr a))) \<circ> (!) plain) i = (plain ! i, ascii (attr i))" by simp
      qed
      finally show ?thesis unfolding split map_append .
    qed
    moreover have "visible_len ((sgr (attr a) @ take (b - a) (drop a plain) @ out) @ t) =
        last (b # bs) - a + visible_len t" for t
      using len ab(1) lb by (simp add: visible_len_sgr [OF ok] visible_len_append [OF esc'] out(3))
    ultimately show ?thesis using out(1) False len by auto
  qed
qed

lemma sorted_last: "sorted xs \<Longrightarrow> x \<in> set xs \<Longrightarrow> (\<And>y. y \<in> set xs \<Longrightarrow> y \<le> x) \<Longrightarrow> last xs = (x :: nat)"
  by (induction xs) (auto intro: order_antisym)

text \<open>Where the bar lies, as a predicate on positions.\<close>

definition in_bar :: "nat \<Rightarrow> fill_from \<Rightarrow> nat \<Rightarrow> bool" where
  "in_bar n side i \<longleftrightarrow> (case side of From_Left \<Rightarrow> i < n | From_Right \<Rightarrow> CELL_WIDTH - n \<le> i)"

definition cell_colour :: "string \<Rightarrow> string \<Rightarrow> nat \<Rightarrow> fill_from \<Rightarrow> nat \<Rightarrow> string" where
  "cell_colour price_fg bar_bg n side i =
     (if i < 26 then price_fg else ''2'') @ '';'' @ (if in_bar n side i then bar_bg else ''49'')"

lemma shade_cell_paint:
  assumes "ESC \<notin> set plain" "CELL_WIDTH \<le> length plain" "code_ok price_fg" "code_ok bar_bg"
  obtains out where "shade_cell plain price_fg bar_bg n side = Done out"
    "paint code out = map (\<lambda>i. (plain ! i, ascii (cell_colour price_fg bar_bg (min n CELL_WIDTH) side i)))
       [0 ..< CELL_WIDTH]"
    "\<And>t. visible_len (out @ t) = CELL_WIDTH + visible_len t"
proof -
  let ?n = "min n CELL_WIDTH"
  let ?bar = "bar_bounds ?n side"
  let ?attr = "cell_attr price_fg bar_bg ?bar"
  let ?xs = "[26, fst ?bar, snd ?bar, CELL_WIDTH]"
  define ys where "ys = sort ?xs"
  have bar: "fst ?bar \<le> CELL_WIDTH" "snd ?bar \<le> CELL_WIDTH" by (cases side; simp add: bar_bounds_def)+
  have sort: "sort [0, min CELL_FG_SPLIT CELL_WIDTH, fst ?bar, snd ?bar, CELL_WIDTH] = 0 # ys"
    by (simp add: ys_def CELL_FG_SPLIT_def CELL_WIDTH_def insort_is_Cons)
  have set: "set ys = set ?xs" unfolding ys_def by (simp only: set_sort)
  have sorted: "sorted (0 # ys)" unfolding ys_def by (simp only: sorted_simps sorted_sort) simp
  have last: "last (0 # ys) = CELL_WIDTH"
  proof (rule sorted_last [OF sorted])
    show "CELL_WIDTH \<in> set (0 # ys)" unfolding list.set set by simp
    show "y \<le> CELL_WIDTH" if "y \<in> set (0 # ys)" for y
      using that bar unfolding list.set set by (auto simp: CELL_WIDTH_def)
  qed
  have change: "\<forall>i j. i \<le> j \<longrightarrow> (\<forall>b\<in>{26, fst ?bar, snd ?bar}. \<not> (i < b \<and> b \<le> j)) \<longrightarrow> ?attr j = ?attr i"
  proof (intro allI impI)
    fix i j assume ij: "i \<le> j" "\<forall>b\<in>{26, fst ?bar, snd ?bar}. \<not> (i < b \<and> b \<le> j)"
    have "j < b \<longleftrightarrow> i < b" if "b \<in> {26, fst ?bar, snd ?bar}" for b
      using ij(1) bspec [OF ij(2) that] by linarith
    then show "?attr j = ?attr i" by (simp add: cell_attr_def CELL_FG_SPLIT_def not_less [symmetric])
  qed
  have ok: "\<forall>i. code_ok (?attr i)" using cell_attr_ok [OF assms(3,4)] by blast
  obtain out where out: "shade_runs ?attr plain (zip (0 # ys) ys) = Done out"
    "\<And>code t. code_ok t \<Longrightarrow> paint code (out @ sgr t) = map (\<lambda>i. (plain ! i, ascii (?attr i))) [0 ..< CELL_WIDTH]"
    "\<And>t. visible_len (out @ t) = CELL_WIDTH + visible_len t"
  proof -
    have inner: "\<forall>b\<in>{26, fst ?bar, snd ?bar}. b \<le> 0 \<or> b \<in> set ys"
      unfolding set by auto
    have "last (0 # ys) \<le> length plain" unfolding last by (rule assms(2))
    from shade_runs_paint [OF change ok assms(1) sorted inner this] show thesis
      unfolding last diff_zero by (elim exE conjE) (rule that, blast+)
  qed
  have "?attr i = cell_colour price_fg bar_bg ?n side i" if "i < CELL_WIDTH" for i
    using that by (cases side) (auto simp: cell_attr_def cell_colour_def in_bar_def bar_bounds_def CELL_FG_SPLIT_def)
  then have p: "paint code (out @ sgr ''0'') =
      map (\<lambda>i. (plain ! i, ascii (cell_colour price_fg bar_bg ?n side i))) [0 ..< CELL_WIDTH]"
    by (simp add: out(2))
  have d: "shade_cell plain price_fg bar_bg n side = Done (out @ sgr ''0'')"
    unfolding shade_cell_def Let_def sort by (simp add: out(1))
  have v: "visible_len ((out @ sgr ''0'') @ t) = CELL_WIDTH + visible_len t" for t
    using out(3) [of "sgr ''0'' @ t"] visible_len_sgr [of "''0''" t] by simp
  show ?thesis by (rule that [OF d p v])
qed

section \<open>Printable text\<close>

definition printable :: "string \<Rightarrow> bool" where
  "printable s \<longleftrightarrow> list_all (\<lambda>c. 32 \<le> char_code c) s"

lemma printable_append [simp]: "printable (a @ b) \<longleftrightarrow> printable a \<and> printable b"
  by (simp add: printable_def)

lemma printable_digits: "list_all is_digit s \<Longrightarrow> printable s"
  by (auto simp: printable_def list_all_iff is_digit_def)

lemma printable_replicate [simp]: "printable (replicate n c) \<longleftrightarrow> n = 0 \<or> 32 \<le> char_code c"
  by (auto simp: printable_def list_all_iff)

lemma blank_code [simp]: "char_code CHR '' '' = 32" "char_code CHR ''0'' = 48"
  "char_code CHR ''.'' = 46" "char_code CHR '':'' = 58"
  by (simp_all add: char_code_def)

lemma printable_pad [simp]:
  "printable (pad_left w s) \<longleftrightarrow> printable s" "printable (pad_right w s) \<longleftrightarrow> printable s"
  "printable (pad_center w s) \<longleftrightarrow> printable s"
  by (simp_all add: pad_left_def pad_right_def pad_center_def Let_def)

lemma printable_show_nat [simp]: "printable (show_nat n)"
  by (rule printable_digits [OF show_nat_list_all])

lemma printable_literals [simp]: "printable []" "printable '' ''" "printable ''NaN''" "printable ''inf''"
  "printable ''-''" "printable ''.''" "printable '':''" "printable ''0''"
  by code_simp+

lemma printable_Cons: "printable (c # s) \<longleftrightarrow> 32 \<le> char_code c \<and> printable s"
  by (simp add: printable_def)

lemma printable_fmt [simp]: "printable (fmt_f64 p x)"
  using printable_Cons [of "CHR ''.''"] by (simp add: fmt_f64_def fixed_digits_def Let_def)

lemma printable_ascii: "printable s \<Longrightarrow> ESC \<notin> set (ascii s) \<and> 10 \<notin> set (ascii s)"
  by (auto simp: printable_def list_all_iff ascii_def ESC_def)

lemma length_ascii [simp]: "length (ascii s) = length s"
  by (simp add: ascii_def)

lemma plain_cell_printable:
  assumes "printable (lv_exchange l)"
  shows "ESC \<notin> set (plain_cell l)" "10 \<notin> set (plain_cell l)"
proof -
  have "printable (pad_left 12 (fmt_f64 8 (lv_price l)) @ '' '' @ pad_left 13 (fmt_f64 8 (lv_amount l))
     @ '' '' @ pad_right 8 (lv_exchange l))"
    using assms printable_Cons [of "CHR '' ''"] by simp
  from printable_ascii [OF this] show "ESC \<notin> set (plain_cell l)" "10 \<notin> set (plain_cell l)"
    by (simp_all add: plain_cell_def)
qed

lemma plain_cell_length: "CELL_WIDTH \<le> length (plain_cell l)"
  by (simp add: plain_cell_def CELL_WIDTH_def)

section \<open>The frame\<close>

text \<open>Lines, counted by their newlines.\<close>

definition newlines :: "chars \<Rightarrow> nat" where
  "newlines s = length (filter (\<lambda>c. c = 10) s)"

lemma newlines_simps [simp]:
  "newlines [] = 0" "newlines (c # s) = (if c = 10 then 1 else 0) + newlines s"
  "newlines (a @ b) = newlines a + newlines b"
  by (simp_all add: newlines_def)

lemma newlines_0: "10 \<notin> set s \<Longrightarrow> newlines s = 0"
  by (auto simp: newlines_def filter_empty_conv)

lemma newlines_blanks [simp]: "newlines (blanks n) = 0"
  by (rule newlines_0) (simp add: blanks_def)

lemma newlines_border: "left \<noteq> 10 \<Longrightarrow> right \<noteq> 10 \<Longrightarrow> newlines (border left right) = 1"
  using newlines_0 [of "replicate (TABLE_WIDTH + 2) 0x2500"] by (simp add: border_def)

lemma newlines_row: "newlines content = 0 \<Longrightarrow> newlines (row content) = 1"
  by (simp add: row_def)

lemma newlines_ascii: "printable s \<Longrightarrow> newlines (ascii s) = 0"
  using printable_ascii newlines_0 by blast

lemma newlines_sgr: "code_ok code \<Longrightarrow> newlines (sgr code) = 0"
  using newlines_0 [OF code_ok_chars(3)] by (simp add: sgr_def ESC_def)

lemma newlines_colourize: "newlines s = 0 \<Longrightarrow> code_ok code \<Longrightarrow> newlines (colourize s (sgr code) colour) = 0"
  by (simp add: colourize_def newlines_sgr)

lemma newlines_shade_runs:
  "10 \<notin> set plain \<Longrightarrow> (\<And>i. code_ok (attr i)) \<Longrightarrow> shade_runs attr plain ws = Done out \<Longrightarrow> newlines out = 0"
proof (induction attr plain ws arbitrary: out rule: shade_runs.induct)
  case (2 attr plain a b ws)
  have "newlines (take (b - a) (drop a plain)) = 0"
    using 2(3) by (intro newlines_0) (meson in_set_dropD in_set_takeD)
  with 2 show ?case by (auto simp: newlines_sgr elim!: bind_outcome_DoneE split: if_splits)
qed simp

lemma newlines_shade_cell:
  assumes "10 \<notin> set plain" "code_ok price_fg" "code_ok bar_bg" "shade_cell plain price_fg bar_bg n side = Done out"
  shows "newlines out = 0"
  using assms(4) unfolding shade_cell_def Let_def
  by (auto simp del: sort_key_simps simp: newlines_sgr elim!: bind_outcome_DoneE
      dest: newlines_shade_runs [OF assms(1) cell_attr_ok [OF assms(2,3)]])

text \<open>A cell is drawn without panic, on one line, and is 35 columns wide where it is coloured.\<close>

lemma length_blanks [simp]: "length (blanks n) = n"
  by (simp add: blanks_def)

lemma blanks_no_escape [simp]: "ESC \<notin> set (blanks n)"
  by (simp add: blanks_def ESC_def)

lemma level_cell_done:
  assumes "\<And>l. level = Some l \<Longrightarrow> printable (lv_exchange l)" "code_ok price_fg" "code_ok bar_bg"
  shows "\<exists>out. level_cell level colour price_fg bar_bg m side = Done out \<and> newlines out = 0
    \<and> (colour \<longrightarrow> (\<forall>t. visible_len (out @ t) = CELL_WIDTH + visible_len t))"
proof (cases level)
  case None
  then show ?thesis by (simp add: level_cell_def visible_len_append)
next
  case (Some l)
  note p = plain_cell_printable [OF assms(1) [OF Some]]
  show ?thesis
  proof (cases colour)
    case True
    obtain out where out: "shade_cell (plain_cell l) price_fg bar_bg (fill_length (lv_amount l) m) side = Done out"
      "\<And>t. visible_len (out @ t) = CELL_WIDTH + visible_len t"
      using shade_cell_paint [OF p(1) plain_cell_length assms(2,3)] by metis
    from newlines_shade_cell [OF p(2) assms(2,3) out(1)] out Some True show ?thesis
      by (simp add: level_cell_def)
  next
    case False
    with Some newlines_0 [OF p(2)] show ?thesis by (simp add: level_cell_def)
  qed
qed

definition printable_names :: "summary \<Rightarrow> bool" where
  "printable_names s \<longleftrightarrow> list_all (\<lambda>l. printable (lv_exchange l)) (sm_bids s @ sm_asks s)"

lemma printable_nth:
  assumes "printable_names s"
  shows "nth_option (sm_bids s) i = Some l \<Longrightarrow> printable (lv_exchange l)"
    and "nth_option (sm_asks s) i = Some l \<Longrightarrow> printable (lv_exchange l)"
  using assms by (auto simp: printable_names_def nth_option_def list_all_iff split: if_splits)

lemma book_row_done:
  assumes "printable_names s"
  obtains r where "book_row s colour m i = Done r" "newlines r = 1"
    "colour \<Longrightarrow> visible_len (butlast r) = TABLE_WIDTH + 4"
proof -
  note nth = printable_nth(1) [OF assms, of i] printable_nth(2) [OF assms, of i]
  obtain bid where bid: "level_cell (nth_option (sm_bids s) i) colour ''32'' BAR_BG_BID m From_Right = Done bid"
    "newlines bid = 0" "\<And>t. colour \<Longrightarrow> visible_len (bid @ t) = CELL_WIDTH + visible_len t"
    using level_cell_done [where level = "nth_option (sm_bids s) i", OF nth(1) code_ok_literals(6,8)] by blast
  obtain ask where ask: "level_cell (nth_option (sm_asks s) i) colour ''31'' BAR_BG_ASK m From_Left = Done ask"
    "newlines ask = 0" "\<And>t. colour \<Longrightarrow> visible_len (ask @ t) = CELL_WIDTH + visible_len t"
    using level_cell_done [where level = "nth_option (sm_asks s) i", OF nth(2) code_ok_literals(5,9)] by blast
  have "visible_len (butlast (row (bid @ [32] @ ask))) = TABLE_WIDTH + 4" if colour
  proof -
    have content: "visible_len (bid @ [32] @ ask) = 71"
      using bid(3) [OF that] ask(3) [OF that, of "[]"] by (simp add: CELL_WIDTH_def ESC_def)
    have edge: "visible_len (blanks 1 @ [32, 0x2502]) = 3"
      by (simp add: visible_len_append) (simp add: ESC_def)
    have "visible_len (bid @ [32] @ ask @ blanks 1 @ [32, 0x2502]) = 74"
      using bid(3) [OF that] ask(3) [OF that] edge by (simp add: CELL_WIDTH_def ESC_def)
    then show ?thesis unfolding row_def content by (simp add: butlast_append TABLE_WIDTH_def ESC_def)
  qed
  with bid(1,2) ask(1,2) that show ?thesis by (simp add: book_row_def newlines_row)
qed

section \<open>The other lines\<close>

lemma newlines_join: "newlines sep = 0 \<Longrightarrow> list_all (\<lambda>x. newlines x = 0) xs \<Longrightarrow> newlines (join sep xs) = 0"
  by (induction sep xs rule: join.induct) auto

lemma printable_names_venue [simp]: "printable (venue_display v)"
  by (cases v) (simp_all add: printable_Cons char_code_def)

lemma newlines_status [simp]: "newlines (venue_status venues seen present colour now) = 0"
proof -
  have "newlines (ascii (venue_display v)) = 0" for v by (rule newlines_ascii) simp
  moreover have "newlines (ascii ('' stale '' @ fmt_f64 1 x @ ''s'')) = 0" for x
    by (rule newlines_ascii) (simp add: printable_Cons char_code_def)
  ultimately have "newlines (venue_label seen present colour now v) = 0" for v
    by (simp add: venue_label_def Let_def newlines_colourize)
  then show ?thesis unfolding venue_status_def by (intro newlines_join) (simp_all add: list_all_iff)
qed

lemma printable_hms [simp]: "printable (now_hms secs)"
  using printable_Cons [of "CHR '':''"] printable_Cons [of "CHR ''0''"] by (simp add: now_hms_def two_digits_def)

lemma newlines_spread_line [simp]: "newlines (spread_line s st colour) = 0"
proof -
  have field: "newlines (ascii (pad_right 40 (''spread '' @ pad_left 12 (fmt_f64 8 x) @ '' ('' @ bps @ '')''))) = 0"
    if "printable bps" for x bps
    using that by (intro newlines_ascii) (simp add: printable_Cons char_code_def)
  have tail: "newlines (ascii (pad_left 8 (show_nat n) @ '' updates   '' @ pad_right 8 r)) = 0" if "printable r" for n r
    using that by (intro newlines_ascii) (simp add: printable_Cons char_code_def)
  show ?thesis unfolding spread_line_def Let_def
    using field tail
    by (simp add: newlines_colourize printable_Cons char_code_def split: option.split)
qed

lemma concat_outcomes_done:
  "list_all (\<lambda>x. \<exists>r. x = Done r \<and> newlines r = 1) xs \<Longrightarrow>
     \<exists>out. concat_outcomes xs = Done out \<and> newlines out = length xs"
  by (induction xs) force+

section \<open>The rate\<close>

lemma f64_of_nat_mono: "m \<le> n \<Longrightarrow> abs_bits (f64_of_nat m) \<le> abs_bits (f64_of_nat n)"
  using round_ratio_mono [of 1 1 m 1074 n 1074] by (simp add: f64_of_nat_def ratio_def)

lemma rate_literals: "is_finite (f64_of_nat (2 ^ 64))" "pos_finite f64_fifth" "\<not> is_zero f64_fifth"
  "is_finite (fdiv (f64_of_nat (2 ^ 64)) f64_fifth)"
  by code_simp+

lemma rate_finite:
  assumes "flt f64_fifth e"
  shows "is_finite (fdiv (f64_of_nat (unat (n :: u64))) e)"
proof -
  let ?x = "f64_of_nat (unat n)" and ?m = "f64_of_nat (2 ^ 64)"
  have n: "unat n \<le> 2 ^ 64" using unsigned_less [of n, where ?'a = nat] by simp
  have x: "abs_bits ?x \<le> abs_bits ?m" "\<not> f64_neg ?x" "\<not> f64_neg ?m"
    using f64_of_nat_mono [OF n] by (simp_all add: f64_of_nat_def)
  then have pos: "pos_finite ?x" "pos_finite ?m"
    using rate_literals(1) by (simp_all add: pos_finite_def is_finite_def)
  have e: "\<not> f64_neg e" "\<not> is_nan e" "abs_bits f64_fifth \<le> abs_bits e"
    using assms rate_literals(2) by (auto simp: flt_def ieee_key_def pos_finite_def split: if_splits)
  show ?thesis
  proof (cases "is_finite e")
    case True
    with e(1) have "pos_finite e" by (simp add: pos_finite_def)
    then have "abs_bits (fdiv ?x e) \<le> abs_bits (fdiv ?x f64_fifth)"
      using pos rate_literals e by (intro fdiv_antimono) simp_all
    also have "\<dots> \<le> abs_bits (fdiv ?m f64_fifth)"
      using pos rate_literals x by (intro fdiv_mono) simp_all
    finally show ?thesis using rate_literals(4) by (simp add: is_finite_def)
  next
    case False
    moreover have "is_finite (f64_zero False)" by code_simp
    ultimately show ?thesis using e pos(1) by (simp add: fdiv_def is_finite_iff pos_finite_def)
  qed
qed

lemma render_done:
  assumes "printable_names s"
  shows "\<exists>frame. render venues seen present s st colour now secs = Done frame \<and> newlines frame = 18"
proof -
  let ?rows = "map (book_row s colour (max_amount_of s)) [0 ..< ROWS]"
  have "\<exists>r. book_row s colour m i = Done r \<and> newlines r = 1" for m i
    using book_row_done [OF assms] by metis
  then have "list_all (\<lambda>x. \<exists>r. x = Done r \<and> newlines r = 1) ?rows" by (simp add: list_all_iff)
  from concat_outcomes_done [OF this] obtain rows where
    rows: "concat_outcomes ?rows = Done rows" "newlines rows = 10" by (auto simp: ROWS_def)
  have heads: "newlines (ascii (pad_center 35 ''BIDS'' @ '' '' @ pad_center 35 ''ASKS'')) = 0"
    by (rule newlines_ascii) (simp add: printable_Cons char_code_def)
  have clock: "newlines (ascii (pad_left 16 (now_hms secs))) = 0" by (rule newlines_ascii) simp
  show ?thesis unfolding render_def Let_def rows(1)
    using rows(2) heads clock by (simp add: newlines_row newlines_border ESC_def)
qed

text \<open>The summaries of a stream of events, up to the first that is not drawn.\<close>

definition drawable :: "stream_event \<Rightarrow> bool" where
  "drawable e \<longleftrightarrow> (case e of Received_Summary s r written \<Rightarrow> printable_names s \<and> written | Status_Error \<Rightarrow> False)"

lemma stream_loop_done:
  "list_all drawable es \<Longrightarrow> \<exists>st' seen' frames. stream_loop colour st seen es = Done (st', seen', frames, True)
     \<and> length frames = length es \<and> list_all (\<lambda>f. newlines f = 18) frames"
proof (induction es arbitrary: st seen)
  case (Cons e es)
  then obtain s r where e: "e = Received_Summary s r True" "printable_names s"
    by (cases e) (auto simp: drawable_def)
  obtain seen1 present where u: "tracker_update seen VENUES s (rd_seen r) = (seen1, present)" by fastforce
  obtain frame where f: "render VENUES seen1 present s (stats_record st (rd_elapsed r) (rd_restart r)) colour
      (rd_now r) (rd_secs r) = Done frame" "newlines frame = 18"
    using render_done [OF e(2)] by blast
  from Cons.IH [of "stats_record st (rd_elapsed r) (rd_restart r)" seen1] Cons.prems u f show ?case
    by (auto simp: e(1) Let_def)
qed simp

lemma reconnect_loop_done:
  "list_all (\<lambda>c. case c of None \<Rightarrow> True | Some es \<Rightarrow> list_all drawable es) cs \<Longrightarrow>
     \<exists>st' seen' frames. reconnect_loop colour st seen cs = Done (st', seen', frames)
       \<and> length frames = length (concat (List.map_filter (\<lambda>c. c) cs))
       \<and> list_all (\<lambda>f. newlines f = 18) frames"
proof (induction cs arbitrary: st seen)
  case (Cons c cs)
  have "\<exists>st1 seen1 f1 ok. connect_and_stream colour st seen c = Done (st1, seen1, f1, ok)
      \<and> length f1 = length (case c of None \<Rightarrow> [] | Some es \<Rightarrow> es) \<and> list_all (\<lambda>f. newlines f = 18) f1"
  proof (cases c)
    case (Some es)
    with Cons.prems stream_loop_done [of es colour st seen] show ?thesis by auto
  qed (auto intro: exI [of _ False])
  then obtain st1 seen1 f1 ok where c: "connect_and_stream colour st seen c = Done (st1, seen1, f1, ok)"
    "length f1 = length (case c of None \<Rightarrow> [] | Some es \<Rightarrow> es)" "list_all (\<lambda>f. newlines f = 18) f1" by blast
  from Cons.IH [of st1 seen1] Cons.prems c show ?case
    by (auto simp: List.map_filter_simps split: option.splits)
qed (simp add: List.map_filter_simps)

section \<open>Properties\<close>

text \<open>
  C36. On a colour terminal every row of the book is exactly as wide as the table's borders,
  whatever the prices, amounts and names in it.
\<close>

theorem coloured_rows_aligned:
  assumes "printable_names s"
  shows "\<exists>r. book_row s True m i = Done r
    \<and> visible_len (butlast r) = visible_len (butlast (border 0x2500 0x2500))"
proof -
  obtain r where "book_row s True m i = Done r" "visible_len (butlast r) = TABLE_WIDTH + 4"
    using book_row_done [OF assms] by metis
  then show ?thesis by (simp add: border_width ESC_def)
qed

theorem coloured_rows_aligned_witness:
  "\<exists>r. book_row \<lparr>sm_spread = f64_zero False,
       sm_bids = [\<lparr>lv_exchange = ''bitstamp'', lv_price = f64_half, lv_amount = f64_one\<rparr>], sm_asks = []\<rparr> True f64_one 0 = Done r
    \<and> visible_len (butlast r) = visible_len (butlast (border 0x2500 0x2500))"
  by (rule coloured_rows_aligned) (simp add: printable_names_def printable_Cons char_code_def)

text \<open>
  C35. On a terminal, a coloured cell shows the first 35 characters of the plain cell, its price
  and amount in the side's colour and the rest dim, over a bar of the rounded share of the
  largest amount, which grows from the edge the side asks for. What the plain cell has past
  column 35 is lost: from a price of 1000 on, the end of a long venue name.
\<close>

theorem coloured_cell_paints:
  assumes "printable (lv_exchange l)" "code_ok price_fg" "code_ok bar_bg"
  shows "\<exists>out. level_cell (Some l) True price_fg bar_bg m side = Done out \<and>
    paint [] out = map (\<lambda>i. (plain_cell l ! i,
      ascii (cell_colour price_fg bar_bg (min (fill_length (lv_amount l) m) CELL_WIDTH) side i))) [0 ..< CELL_WIDTH]"
proof -
  note p = plain_cell_printable [OF assms(1)]
  show ?thesis
    by (rule shade_cell_paint [OF p(1) plain_cell_length assms(2,3)]) (auto simp: level_cell_def)
qed

theorem coloured_cell_paints_witness:
  "\<exists>out. level_cell (Some \<lparr>lv_exchange = ''bitstamp'', lv_price = 0x40ed4c0000000000, lv_amount = f64_half\<rparr>)
       True ''32'' BAR_BG_BID f64_one From_Right = Done out
     \<and> map fst (paint [] out) = ascii ''60000.00000000    0.50000000 bitsta''"
proof -
  let ?l = "\<lparr>lv_exchange = ''bitstamp'', lv_price = 0x40ed4c0000000000, lv_amount = f64_half\<rparr>"
  have "printable (lv_exchange ?l)" by (simp add: printable_Cons char_code_def)
  from coloured_cell_paints [OF this code_ok_literals(6,8), of f64_one From_Right] obtain out where
    out: "level_cell (Some ?l) True ''32'' BAR_BG_BID f64_one From_Right = Done out"
    and p: "paint [] out = map (\<lambda>i. (plain_cell ?l ! i, ascii (cell_colour ''32'' BAR_BG_BID
      (min (fill_length (lv_amount ?l) f64_one) CELL_WIDTH) From_Right i))) [0 ..< CELL_WIDTH]"
    by blast
  have "map fst (paint [] out) = map ((!) (plain_cell ?l)) [0 ..< CELL_WIDTH]"
    unfolding p by (simp only: map_map comp_def fst_conv)
  moreover have "plain_cell ?l = ascii ''60000.00000000    0.50000000 bitstamp''" by code_simp
  moreover have "map ((!) (ascii ''60000.00000000    0.50000000 bitstamp'')) [0 ..< CELL_WIDTH] =
    ascii ''60000.00000000    0.50000000 bitsta''" by code_simp
  ultimately show ?thesis using out by metis
qed

text \<open>
  C37. The rolling rate is always a finite number, whatever the clock shows: the guard on the
  elapsed time excludes the division by zero, and so the placeholder of the spread line for a
  rate that is not finite is never drawn.
\<close>

theorem rate_always_finite:
  "is_finite (st_rate (fold (\<lambda>(t1, t2) st. stats_record st t1 t2) clock (stats_new t0)))"
proof -
  have "is_finite (f64_zero False)" by code_simp
  then have "is_finite (st_rate (stats_new t0))" by (simp add: stats_new_def)
  moreover have "is_finite (st_rate (fold (\<lambda>(t1, t2) st. stats_record st t1 t2) clock st))"
    if "is_finite (st_rate st)" for st
    using that
  proof (induction clock arbitrary: st)
    case (Cons t clock)
    then show ?case by (cases t) (simp add: stats_record_def Let_def rate_finite)
  qed simp
  ultimately show ?thesis by blast
qed

end
