(* ===== verification/Service.thy ===== *)
theory Service
  imports Aggregator_Task Client "HOL-Library.Sublist"
begin

text \<open>
  What the summaries of a run are, and that a client draws whatever subsequence of them reaches it.
\<close>

lemma subseq_set: "subseq xs ys \<Longrightarrow> set xs \<subseteq> set ys"
  by (induction rule: list_emb.induct) auto

section \<open>Every summary of a run is a merge\<close>

definition summary_ok :: "summary \<Rightarrow> bool" where
  "summary_ok s \<longleftrightarrow> sm_bids s \<noteq> [] \<and> sm_asks s \<noteq> []
     \<and> length (sm_bids s) \<le> TOP_N \<and> length (sm_asks s) \<le> TOP_N
     \<and> (\<forall>l\<in>set (sm_bids s @ sm_asks s). lv_exchange l \<in> venue_display ` set VENUES)"

lemma venues_all: "v \<in> set VENUES"
  by (cases v) (simp_all add: VENUES_def)

lemma merge_side_length: "length (merge_side venues s) \<le> TOP_N"
  by (simp add: merge_side_picks length_picks)

lemma merge_ok:
  assumes "merge venues = Some m"
  shows "summary_ok m"
proof -
  have names: "lv_exchange l \<in> venue_display ` set VENUES" if "l \<in> set (sm_bids m @ sm_asks m)" for l
    using merge_levels [OF assms, of l] that venues_all by (metis image_eqI set_append)
  obtain b bs a as where "merge_side venues Bid = b # bs" "merge_side venues Ask = a # as"
    "m = \<lparr>sm_spread = spread_of (lv_price a) (lv_price b), sm_bids = b # bs, sm_asks = a # as\<rparr>"
    using assms by (rule merge_SomeE)
  with merge_side_length [of venues Bid] merge_side_length [of venues Ask] names
  show ?thesis unfolding summary_ok_def by auto
qed

lemma record_and_publish_ok:
  assumes "bt_sorted (ag_venues ag)" "record_and_publish ops ag v b t = Done (ag', Some s)"
  shows "summary_ok s"
proof -
  obtain now t1 t2 where t: "t = (now, t1, t2)" by (cases t)
  from assms(2) show ?thesis unfolding t
    by (cases rule: record_and_publish_cases [OF assms(1), of ops v b now t1 t2]) (auto intro: merge_ok)
qed

lemma run_loop_ok:
  "bt_sorted (ag_venues ag) \<Longrightarrow> run_loop ops t0 ag n es = Done (ag', out, ex) \<Longrightarrow>
     list_all summary_ok (published_of out)"
proof (induction ops t0 ag n es arbitrary: ag' out ex rule: run_loop.induct)
  case (2 ops t0 ag n v b t es)
  obtain ag1 sent where step: "record_and_publish ops ag v b t = Done (ag1, sent)"
    and sorted: "bt_sorted (ag_venues ag1)" using "2.prems"(1) by (rule record_and_publish_done)
  from "2.prems"(2) step obtain out' where
    r: "run_loop ops t0 ag1 n es = Done (ag', out', ex)"
    "out = (case sent of None \<Rightarrow> out' | Some s \<Rightarrow> Published s # out')"
    by (auto elim!: bind_outcome_DoneE)
  from "2.IH" [OF sorted r(1)] record_and_publish_ok [OF "2.prems"(1)] step r(2)
  show ?case by (auto split: option.splits)
next
  case (4 ops t0 ag n now es)
  then show ?case by (auto split: if_splits)
next
  case (5 ops t0 ag n es)
  obtain ag1 r where rep: "log_report ops ag n REPORT_INTERVAL = (ag1, r)" by fastforce
  then have "bt_sorted (ag_venues ag1)" using "5.prems"(1) log_report_simps(1) [of ops ag n REPORT_INTERVAL] by simp
  with "5.IH" [OF rep [symmetric] refl] "5.prems"(2) rep show ?case by (auto elim!: bind_outcome_DoneE)
qed auto

lemma run_ok: "run ops t0 es = Done (ag, out, ex) \<Longrightarrow> list_all summary_ok (published_of out)"
  unfolding run_def by (rule run_loop_ok) (simp_all add: aggregator_new_def bt.invar_empty)

lemma summary_ok_printable: "summary_ok s \<Longrightarrow> printable_names s"
  unfolding summary_ok_def printable_names_def list_all_iff using printable_names_venue by fastforce

text \<open>
  A client draws a frame of 18 lines for every summary its connections bring, without panic, over
  failed connections too.
\<close>

lemma streams_draw:
  assumes "run ops t0 es = Done (ag, out, ex)"
    "\<And>ss. ss \<in> set streams \<Longrightarrow> subseq ss (published_of out)"
  shows "\<exists>st seen frames. client colour t1 t2
      (None # map (\<lambda>ss. Some (map (\<lambda>s. Received_Summary s (r s) True) ss)) streams) = Done (st, seen, frames)
    \<and> length frames = length (concat streams) \<and> list_all (\<lambda>f. newlines f = 18) frames"
proof -
  let ?conns = "map (\<lambda>ss. Some (map (\<lambda>s. Received_Summary s (r s) True) ss)) streams"
  have ok: "printable_names s" if "ss \<in> set streams" "s \<in> set ss" for ss s
    using that subseq_set [OF assms(2) [OF that(1)]] run_ok [OF assms(1)]
    by (auto simp: list_all_iff intro: summary_ok_printable)
  then have "list_all (\<lambda>c. case c of None \<Rightarrow> True | Some es \<Rightarrow> list_all drawable es) (None # ?conns)"
    by (auto simp: list_all_iff drawable_def)
  from reconnect_loop_done [OF this] obtain st seen frames where
    draw: "client colour t1 t2 (None # ?conns) = Done (st, seen, frames)"
    "length frames = length (concat (List.map_filter (\<lambda>c. c) (None # ?conns)))"
    "list_all (\<lambda>f. newlines f = 18) frames"
    unfolding client_def by blast
  have "length (concat (List.map_filter (\<lambda>c. c) (None # ?conns))) = length (concat streams)"
    by (induction streams) (simp_all add: List.map_filter_simps)
  with draw show ?thesis by auto
qed

text \<open>A run with one message, used to witness the properties.\<close>

lemma sample_run:
  "\<exists>ag out ex s. run sample_ops 0 [Message Binance sample_book (5, 6, 7)] = Done (ag, out, ex)
     \<and> published_of out = [s]"
proof -
  let ?run = "run sample_ops 0 [Message Binance sample_book (5, 6, 7)]"
  have "case ?run of Panic \<Rightarrow> False | Done (ag, out, ex) \<Rightarrow> length (published_of out) = 1" by code_simp
  then obtain ag out ex where "?run = Done (ag, out, ex)" "length (published_of out) = 1"
    by (cases ?run) (auto simp only: outcome.case prod.case split: prod.splits)
  then show ?thesis by (auto simp: length_Suc_conv simp del: run_loop.simps)
qed

section \<open>Properties\<close>

text \<open>
  C34. Every summary the task publishes is well-formed: each side has one to ten levels, and
  each level names one of the three venues.
\<close>

theorem published_wellformed:
  assumes "run ops t0 es = Done (ag, out, ex)" "s \<in> set (published_of out)"
  shows "1 \<le> length (sm_bids s) \<and> length (sm_bids s) \<le> 10
    \<and> 1 \<le> length (sm_asks s) \<and> length (sm_asks s) \<le> 10
    \<and> (\<forall>l\<in>set (sm_bids s @ sm_asks s). lv_exchange l \<in> {''binance'', ''bitstamp'', ''kraken''})"
  using run_ok [OF assms(1)] assms(2)
  by (auto simp: list_all_iff summary_ok_def TOP_N_def VENUES_def Suc_le_eq)

theorem published_wellformed_witness:
  "\<exists>s ag out ex. run sample_ops 0 [Message Binance sample_book (5, 6, 7)] = Done (ag, out, ex)
     \<and> published_of out = [s] \<and> 1 \<le> length (sm_bids s)"
proof -
  obtain ag out ex s where run: "run sample_ops 0 [Message Binance sample_book (5, 6, 7)] = Done (ag, out, ex)"
    and s: "published_of out = [s]" using sample_run by blast
  have "s \<in> set (published_of out)" by (simp add: s)
  from published_wellformed [OF run this] have "1 \<le> length (sm_bids s)" by (rule conjunct1)
  then show ?thesis
    by (intro exI [of _ s] exI [of _ ag] exI [of _ out] exI [of _ ex] conjI run s)
qed

end
