(* ===== verification/Watch_Service.thy ===== *)
theory Watch_Service
  imports Service
begin

text \<open>
  \<open>src/server.rs\<close> as it runs: the aggregator's end of the watch channel, the service that clones
  the receiver for every call, and any number of subscribers that call, poll their streams and
  leave in any order. The channel is tokio's and enters as the record of its operations; the
  locale states what its documentation says: a value and a version that every send advances, and
  streams that remember the version they have seen, a new one none.
\<close>

section \<open>The watch channel\<close>

text \<open>\<open>'c\<close> is the shared state, \<open>'r\<close> a receiver and \<open>'s\<close> a \<open>WatchStream\<close>.\<close>

datatype 'a polled = Pending | Item 'a | Finished

record ('a, 'c, 'r, 's) watch_ops =
  wo_channel :: "'a \<Rightarrow> 'c \<times> 'r"
  wo_send :: "'a \<Rightarrow> 'c \<Rightarrow> 'c"
  wo_drop_sender :: "'c \<Rightarrow> 'c"
  wo_clone :: "'r \<Rightarrow> 'r"
  wo_stream :: "'r \<Rightarrow> 's"
  wo_poll :: "'c \<Rightarrow> 's \<Rightarrow> 'a polled \<times> 's"

locale watch_channel =
  fixes ops :: "(summary option, 'c, 'r, 's) watch_ops"
    and current :: "'c \<Rightarrow> summary option"
    and version :: "'c \<Rightarrow> nat"
    and gone :: "'c \<Rightarrow> bool"
    and seen :: "'s \<Rightarrow> nat option"
  assumes channel: "wo_channel ops x = (c, r) \<Longrightarrow> current c = x \<and> version c = 0 \<and> \<not> gone c"
    and send: "current (wo_send ops x c) = x" "version (wo_send ops x c) = Suc (version c)"
      "gone (wo_send ops x c) = gone c"
    and drop_sender: "current (wo_drop_sender ops c) = current c" "version (wo_drop_sender ops c) = version c"
      "gone (wo_drop_sender ops c)"
    and stream: "seen (wo_stream ops r) = None"
    and poll_new: "seen s \<noteq> Some (version c) \<Longrightarrow> wo_poll ops c s = (p, s') \<Longrightarrow>
      p = Item (current c) \<and> seen s' = Some (version c)"
    and poll_seen: "seen s = Some (version c) \<Longrightarrow> wo_poll ops c s = (p, s') \<Longrightarrow>
      p = (if gone c then Finished else Pending) \<and> seen s' = seen s"

text \<open>A value, a version and whether the sender is gone: such a channel.\<close>

definition versioned :: "(summary option, summary option \<times> nat \<times> bool, nat, nat option) watch_ops" where
  "versioned = \<lparr>wo_channel = (\<lambda>x. ((x, 0, False), 0)),
     wo_send = (\<lambda>x (_, n, cl). (x, Suc n, cl)),
     wo_drop_sender = (\<lambda>(x, n, _). (x, n, True)),
     wo_clone = (\<lambda>r. r), wo_stream = (\<lambda>r. None),
     wo_poll = (\<lambda>(x, n, cl) s. if s = Some n then (if cl then Finished else Pending, s) else (Item x, Some n))\<rparr>"

interpretation versioned: watch_channel versioned fst "\<lambda>(x, n, cl). n" "\<lambda>(x, n, cl). cl" "\<lambda>s. s"
  by unfold_locales (auto simp: versioned_def split: if_splits)

section \<open>The service\<close>

record 'r aggregator_service =
  as_rx :: 'r

text \<open>\<open>router\<close>: the embedded descriptor is parsed by the reflection library, \<open>build_v1\<close>.\<close>

definition router :: "('d \<Rightarrow> 'l option) \<Rightarrow> 'd \<Rightarrow> 'r \<Rightarrow> ('r aggregator_service \<times> 'l) outcome" where
  "router build_v1 descriptor_set rx =
     (let aggregator = \<lparr>as_rx = rx\<rparr>
      in case build_v1 descriptor_set of
           None \<Rightarrow> Panic
         | Some reflection \<Rightarrow> Done (aggregator, reflection))"

text \<open>
  A call of \<open>BookSummary\<close> makes a stream of its own; of what that stream yields, \<open>filter_map\<close>
  passes on the summaries and asks again after a None.
\<close>

definition book_summary_call :: "('a, 'c, 'r, 's) watch_ops \<Rightarrow> 'r aggregator_service \<Rightarrow> 's" where
  "book_summary_call ops service = wo_stream ops (wo_clone ops (as_rx service))"

section \<open>Publisher and subscribers\<close>

text \<open>
  Beside the state its history: the summaries sent, how many of them each subscriber's last call
  came too late for, and those it brought.
\<close>

record ('c, 'r, 's) serving =
  sv_channel :: 'c
  sv_service :: "'r aggregator_service"
  sv_streams :: "nat \<Rightarrow> 's option"
  sv_sent :: "summary list"
  sv_from :: "nat \<Rightarrow> nat"
  sv_got :: "nat \<Rightarrow> summary list"

datatype serving_event =
    Send summary
  | Drop_Sender
  | Call nat
  | Poll nat
  | Hang_Up nat

definition serving_start :: "(summary option, 'c, 'r, 's) watch_ops \<Rightarrow> ('c, 'r, 's) serving" where
  "serving_start ops =
     (let (c, r) = wo_channel ops None
      in \<lparr>sv_channel = c, sv_service = \<lparr>as_rx = r\<rparr>, sv_streams = (\<lambda>_. None), sv_sent = [],
           sv_from = (\<lambda>_. 0), sv_got = (\<lambda>_. [])\<rparr>)"

text \<open>A \<open>Poll\<close> is one poll of the inner stream; a stream that finishes ends its call.\<close>

definition poll_stream :: "(summary option, 'c, 'r, 's) watch_ops \<Rightarrow> nat \<Rightarrow> 's \<Rightarrow>
    ('c, 'r, 's) serving \<Rightarrow> ('c, 'r, 's) serving" where
  "poll_stream ops i s st =
     (case wo_poll ops (sv_channel st) s of
        (Finished, _) \<Rightarrow> st\<lparr>sv_streams := (sv_streams st)(i := None)\<rparr>
      | (Pending, s') \<Rightarrow> st\<lparr>sv_streams := (sv_streams st)(i := Some s')\<rparr>
      | (Item None, s') \<Rightarrow> st\<lparr>sv_streams := (sv_streams st)(i := Some s')\<rparr>
      | (Item (Some m), s') \<Rightarrow> st\<lparr>sv_streams := (sv_streams st)(i := Some s'),
          sv_got := (sv_got st)(i := sv_got st i @ [m])\<rparr>)"

fun serve :: "(summary option, 'c, 'r, 's) watch_ops \<Rightarrow> serving_event \<Rightarrow> ('c, 'r, 's) serving \<Rightarrow>
    ('c, 'r, 's) serving" where
  "serve ops (Send m) st =
     st\<lparr>sv_channel := wo_send ops (Some m) (sv_channel st), sv_sent := sv_sent st @ [m]\<rparr>"
| "serve ops Drop_Sender st = st\<lparr>sv_channel := wo_drop_sender ops (sv_channel st)\<rparr>"
| "serve ops (Call i) st =
     st\<lparr>sv_streams := (sv_streams st)(i := Some (book_summary_call ops (sv_service st))),
        sv_from := (sv_from st)(i := length (sv_sent st) - 1), sv_got := (sv_got st)(i := [])\<rparr>"
| "serve ops (Poll i) st =
     (case sv_streams st i of None \<Rightarrow> st | Some s \<Rightarrow> poll_stream ops i s st)"
| "serve ops (Hang_Up i) st = st\<lparr>sv_streams := (sv_streams st)(i := None)\<rparr>"

definition serve_all :: "(summary option, 'c, 'r, 's) watch_ops \<Rightarrow> serving_event list \<Rightarrow> ('c, 'r, 's) serving" where
  "serve_all ops es = fold (serve ops) es (serving_start ops)"

lemma serve_all_snoc: "serve_all ops (es @ [e]) = serve ops e (serve_all ops es)"
  by (simp add: serve_all_def)

fun sent_by :: "serving_event list \<Rightarrow> summary list" where
  "sent_by [] = []"
| "sent_by (Send m # es) = m # sent_by es"
| "sent_by (e # es) = sent_by es"

lemma sent_by_append [simp]: "sent_by (es @ fs) = sent_by es @ sent_by fs"
  by (induction es rule: sent_by.induct) simp_all

lemma serve_sent: "sv_sent (serve ops e st) = sv_sent st @ sent_by [e]"
  by (cases e) (auto simp: poll_stream_def split: option.split prod.split polled.split)

lemma serve_all_sent: "sv_sent (serve_all ops es) = sent_by es"
proof (induction es rule: rev_induct)
  case Nil
  show ?case by (simp add: serve_all_def serving_start_def split: prod.split)
qed (simp add: serve_all_snoc serve_sent)

section \<open>What a subscriber has\<close>

text \<open>
  The channel holds the last summary sent and its version counts them. With \<open>k\<close> the number of
  summaries sent before its call, less the one that was current then, an open stream that has
  seen version \<open>n\<close> has brought a subsequence of those from \<open>k\<close> to \<open>n\<close> that ends with the \<open>n\<close>-th.
\<close>

definition latest :: "summary list \<Rightarrow> summary option" where
  "latest ms = (if ms = [] then None else Some (last ms))"

lemma latest_simps [simp]: "latest [] = None" "latest (ms @ [m]) = Some m"
  by (simp_all add: latest_def)

definition follows :: "nat \<Rightarrow> summary list \<Rightarrow> summary list \<Rightarrow> nat option \<Rightarrow> bool" where
  "follows k sent got n \<longleftrightarrow> k \<le> length sent - 1 \<and> (case n of None \<Rightarrow> got = []
     | Some n \<Rightarrow> n \<le> length sent \<and> subseq got (drop k (take n sent)) \<and> latest got = latest (take n sent))"

lemma subseq_take:
  assumes "n \<le> m"
  shows "subseq (drop k (take n xs)) (drop k (take m xs))"
proof -
  have "take m xs = take n xs @ take (m - n) (drop n xs)" using take_add [of n "m - n" xs] assms by simp
  then show ?thesis by (simp add: list_emb_prefix)
qed

lemma follows_subseq: "follows k sent got n \<Longrightarrow> subseq got (drop k sent)"
  using subseq_take [of _ "length sent" k sent]
  by (fastforce simp: follows_def intro: subseq_order.trans split: option.splits)

lemma subseq_drop_snoc: "subseq xs (drop k ys) \<Longrightarrow> subseq xs (drop k (ys @ [y]))"
  by (simp add: list_emb_prefix)

lemma follows_sent: "follows k sent got n \<Longrightarrow> follows k (sent @ [m]) got n"
  by (auto simp: follows_def split: option.splits)

text \<open>A poll that finds a new version brings the stream up to it.\<close>

lemma follows_item:
  assumes "follows k sent got n" "n \<noteq> Some (length sent)"
  shows "follows k sent (case latest sent of None \<Rightarrow> got | Some m \<Rightarrow> got @ [m]) (Some (length sent))"
proof (cases sent rule: rev_cases)
  case Nil
  with assms show ?thesis by (auto simp: follows_def split: option.splits)
next
  case (snoc ms m)
  have "subseq got (drop k ms)"
  proof (cases n)
    case (Some j)
    with assms snoc have "j \<le> length ms" "subseq got (drop k (take j ms))" by (auto simp: follows_def)
    then show ?thesis using subseq_take [of j "length ms" k ms] by (auto intro: subseq_order.trans)
  qed (use assms in \<open>simp add: follows_def\<close>)
  with assms(1) snoc show ?thesis by (simp add: follows_def)
qed

definition serving_ok :: "('c \<Rightarrow> summary option) \<Rightarrow> ('c \<Rightarrow> nat) \<Rightarrow> ('s \<Rightarrow> nat option) \<Rightarrow>
    ('c, 'r, 's) serving \<Rightarrow> bool" where
  "serving_ok current version seen st \<longleftrightarrow> current (sv_channel st) = latest (sv_sent st)
     \<and> version (sv_channel st) = length (sv_sent st)
     \<and> (\<forall>i. subseq (sv_got st i) (drop (sv_from st i) (sv_sent st)))
     \<and> (\<forall>i s. sv_streams st i = Some s \<longrightarrow> follows (sv_from st i) (sv_sent st) (sv_got st i) (seen s))"

context watch_channel
begin

lemma poll_stream_ok:
  assumes "serving_ok current version seen st" "sv_streams st i = Some s"
  shows "serving_ok current version seen (poll_stream ops i s st)
    \<and> latest (sv_got (poll_stream ops i s st) i) = latest (sv_sent st)"
proof -
  have ok: "current (sv_channel st) = latest (sv_sent st)" "version (sv_channel st) = length (sv_sent st)"
    "follows (sv_from st i) (sv_sent st) (sv_got st i) (seen s)"
    using assms by (simp_all add: serving_ok_def)
  obtain p s' where poll: "wo_poll ops (sv_channel st) s = (p, s')" by fastforce
  show ?thesis
  proof (cases "seen s = Some (version (sv_channel st))")
    case True
    then have "latest (sv_got st i) = latest (sv_sent st)" using ok by (simp add: follows_def)
    with poll_seen [OF True poll] assms poll show ?thesis
      by (cases "gone (sv_channel st)") (auto simp: poll_stream_def serving_ok_def)
  next
    case False
    note new = poll_new [OF False poll]
    have fol: "follows (sv_from st i) (sv_sent st) (case latest (sv_sent st) of None \<Rightarrow> sv_got st i | Some m \<Rightarrow> sv_got st i @ [m])
        (Some (length (sv_sent st)))"
      using follows_item [OF ok(3)] False ok(2) by simp
    then have "latest (case latest (sv_sent st) of None \<Rightarrow> sv_got st i | Some m \<Rightarrow> sv_got st i @ [m]) = latest (sv_sent st)"
      by (simp add: follows_def)
    with assms poll ok new fol follows_subseq [OF fol] show ?thesis
      by (auto simp: poll_stream_def serving_ok_def split: option.splits)
  qed
qed

lemma serve_ok:
  assumes "serving_ok current version seen st"
  shows "serving_ok current version seen (serve ops e st)"
proof (cases e)
  case (Poll i)
  with assms poll_stream_ok [OF assms] show ?thesis by (cases "sv_streams st i") simp_all
next
  case (Call i)
  with assms show ?thesis
    by (auto simp: serving_ok_def follows_def book_summary_call_def stream)
qed (use assms in \<open>auto simp: serving_ok_def send drop_sender follows_sent subseq_drop_snoc simp del: drop_append\<close>)

lemma serving_start_ok: "serving_ok current version seen (serving_start ops)"
  using channel [of None] by (cases "wo_channel ops None") (simp add: serving_start_def serving_ok_def)

lemma serve_all_ok: "serving_ok current version seen (serve_all ops es)"
  by (induction es rule: rev_induct) (simp_all add: serve_all_snoc serve_ok, simp add: serve_all_def serving_start_ok)

lemma serve_gone: "gone (sv_channel (serve ops e st)) \<longleftrightarrow> gone (sv_channel st) \<or> e = Drop_Sender"
  by (cases e) (auto simp: send drop_sender poll_stream_def split: option.split prod.split polled.split)

lemma serve_all_gone: "gone (sv_channel (serve_all ops es)) \<longleftrightarrow> Drop_Sender \<in> set es"
proof (induction es rule: rev_induct)
  case Nil
  show ?case using channel [of None]
    by (cases "wo_channel ops None") (simp add: serve_all_def serving_start_def)
qed (auto simp: serve_all_snoc serve_gone)

lemma serve_open:
  assumes "sv_streams st i \<noteq> None" "\<not> gone (sv_channel st)" "e \<noteq> Hang_Up i"
  shows "sv_streams (serve ops e st) i \<noteq> None"
proof (cases e)
  case (Poll j)
  show ?thesis
  proof (cases "sv_streams st j")
    case (Some s)
    have "fst (wo_poll ops (sv_channel st) s) \<noteq> Finished"
      using poll_new [of s "sv_channel st"] poll_seen [of s "sv_channel st"] assms(2)
      by (cases "wo_poll ops (sv_channel st) s") force
    with Poll Some assms(1) show ?thesis
      by (auto simp: poll_stream_def split: option.split prod.split polled.split)
  qed (use Poll assms(1) in simp)
qed (use assms in auto)

lemma serve_all_open:
  "Hang_Up i \<notin> set post \<Longrightarrow> Drop_Sender \<notin> set (pre @ post) \<Longrightarrow>
     sv_streams (serve_all ops (pre @ Call i # post)) i \<noteq> None"
proof (induction post rule: rev_induct)
  case Nil
  show ?case by (simp add: serve_all_snoc)
next
  case (snoc e post)
  have "\<not> gone (sv_channel (serve_all ops (pre @ Call i # post)))" using snoc.prems by (auto simp: serve_all_gone)
  moreover have "sv_streams (serve_all ops (pre @ Call i # post)) i \<noteq> None" "e \<noteq> Hang_Up i"
    using snoc by auto
  ultimately show ?case using serve_all_snoc [of ops "pre @ Call i # post" e] serve_open by simp
qed

lemma serve_all_subseq: "subseq (sv_got (serve_all ops es) i) (sent_by es)"
proof -
  have "subseq (sv_got (serve_all ops es) i) (drop (sv_from (serve_all ops es) i) (sent_by es))"
    using serve_all_ok [of es] by (simp add: serving_ok_def serve_all_sent)
  then show ?thesis by (rule subseq_order.trans) (simp add: suffix_imp_subseq suffix_drop)
qed

end

text \<open>Where a call starts.\<close>

lemma serve_from: "e \<noteq> Call i \<Longrightarrow> sv_from (serve ops e st) i = sv_from st i"
  by (cases e) (auto simp: poll_stream_def split: option.split prod.split polled.split)

lemma serve_all_from:
  "Call i \<notin> set post \<Longrightarrow> sv_from (serve_all ops (pre @ Call i # post)) i = length (sent_by pre) - 1"
proof (induction post rule: rev_induct)
  case Nil
  show ?case by (simp add: serve_all_snoc serve_all_sent)
next
  case (snoc e post)
  then show ?case using serve_all_snoc [of ops "pre @ Call i # post" e] by (auto simp: serve_from)
qed

section \<open>Subscribers do not see each other\<close>

fun about :: "nat \<Rightarrow> serving_event \<Rightarrow> bool" where
  "about j (Call i) = (i = j)"
| "about j (Poll i) = (i = j)"
| "about j (Hang_Up i) = (i = j)"
| "about j e = False"

definition alike :: "nat \<Rightarrow> ('c, 'r, 's) serving \<Rightarrow> ('c, 'r, 's) serving \<Rightarrow> bool" where
  "alike j st st' \<longleftrightarrow> sv_channel st = sv_channel st' \<and> sv_service st = sv_service st' \<and> sv_sent st = sv_sent st'
     \<and> (\<forall>i. i \<noteq> j \<longrightarrow> sv_streams st i = sv_streams st' i \<and> sv_got st i = sv_got st' i)"

lemma alike_about: "about j e \<Longrightarrow> alike j st st' \<Longrightarrow> alike j (serve ops e st) st'"
  by (cases e) (auto simp: alike_def poll_stream_def split: option.splits prod.splits polled.splits)

lemma alike_step: "\<not> about j e \<Longrightarrow> alike j st st' \<Longrightarrow> alike j (serve ops e st) (serve ops e st')"
  by (cases e) (auto simp: alike_def poll_stream_def split: option.split prod.split polled.split)

lemma alike_without: "alike j (serve_all ops es) (serve_all ops (filter (\<lambda>e. \<not> about j e) es))"
proof (induction es rule: rev_induct)
  case Nil
  show ?case by (simp add: serve_all_def alike_def)
next
  case (snoc e es)
  then show ?case by (cases "about j e") (simp_all add: serve_all_snoc alike_about alike_step)
qed

section \<open>Properties\<close>

text \<open>Summaries that differ in their spread, used to witness the properties.\<close>

definition tiny_summary :: "f64 \<Rightarrow> summary" where
  "tiny_summary x = \<lparr>sm_spread = x, sm_bids = [], sm_asks = []\<rparr>"

text \<open>
  C6. Whatever its neighbours and the publisher do, a subscriber gets from a call a subsequence of
  the summaries published from the one that was current at the call, in their order and none
  twice; its stream stays open while it does not hang up and the publisher lives; and while it
  is open every poll leaves it with the last summary published.
\<close>

theorem subscriber_follows:
  assumes "watch_channel ops current version gone seen" "Call i \<notin> set post"
  shows "subseq (sv_got (serve_all ops (pre @ Call i # post)) i)
      (drop (length (sent_by pre) - 1) (sent_by pre @ sent_by post))
    \<and> (Hang_Up i \<notin> set post \<and> Drop_Sender \<notin> set (pre @ post) \<longrightarrow>
        sv_streams (serve_all ops (pre @ Call i # post)) i \<noteq> None)
    \<and> (sv_streams (serve_all ops (pre @ Call i # post)) i \<noteq> None \<longrightarrow>
        latest (sv_got (serve_all ops (pre @ Call i # post @ [Poll i])) i) = latest (sent_by pre @ sent_by post))"
proof -
  let ?st = "serve_all ops (pre @ Call i # post)"
  note ok = watch_channel.serve_all_ok [OF assms(1), of "pre @ Call i # post"]
  have "serve_all ops (pre @ Call i # post @ [Poll i]) = serve ops (Poll i) ?st"
    using serve_all_snoc [of ops "pre @ Call i # post" "Poll i"] by simp
  moreover have "latest (sv_got (poll_stream ops i s ?st) i) = latest (sent_by pre @ sent_by post)"
    if "sv_streams ?st i = Some s" for s
    using watch_channel.poll_stream_ok [OF assms(1) ok that] by (simp add: serve_all_sent)
  moreover have "subseq (sv_got ?st i) (drop (length (sent_by pre) - 1) (sent_by pre @ sent_by post))"
    using ok serve_all_from [OF assms(2)] unfolding serving_ok_def by (metis serve_all_sent sent_by_append sent_by.simps(4))
  ultimately show ?thesis
    using watch_channel.serve_all_open [OF assms(1), of i post pre] by (auto simp del: drop_append)
qed

theorem subscriber_follows_witness:
  "latest (sv_got (serve_all versioned [Send (tiny_summary 1), Call 0, Poll 0, Send (tiny_summary 2),
      Send (tiny_summary 3), Poll 0]) 0) = Some (tiny_summary 3)"
proof -
  let ?post = "[Poll 0, Send (tiny_summary 2), Send (tiny_summary 3)]"
  from subscriber_follows [OF versioned.watch_channel_axioms, of 0 ?post "[Send (tiny_summary 1)]"]
  have "latest (sv_got (serve_all versioned ([Send (tiny_summary 1)] @ Call 0 # ?post @ [Poll 0])) 0)
      = latest (sent_by [Send (tiny_summary 1)] @ sent_by ?post)" by simp
  then show ?thesis by (simp add: latest_def)
qed

text \<open>
  C7. Subscribers are independent: another subscriber's calls, polls and leaving change nothing
  of what a subscriber gets, nor of what is published.
\<close>

theorem subscribers_independent:
  "i \<noteq> j \<Longrightarrow> sv_got (serve_all ops es) i = sv_got (serve_all ops (filter (\<lambda>e. \<not> about j e) es)) i
     \<and> sv_streams (serve_all ops es) i = sv_streams (serve_all ops (filter (\<lambda>e. \<not> about j e) es)) i
     \<and> sent_by (filter (\<lambda>e. \<not> about j e) es) = sent_by es"
proof -
  assume "i \<noteq> j"
  moreover have "sv_sent (serve_all ops (filter (\<lambda>e. \<not> about j e) es)) = sv_sent (serve_all ops es)"
    using alike_without [of j ops es] by (simp add: alike_def)
  ultimately show ?thesis using alike_without [of j ops es] by (simp add: alike_def serve_all_sent)
qed

theorem subscribers_independent_witness:
  "sv_got (serve_all versioned [Call 0, Call 1, Send (tiny_summary 1), Hang_Up 1, Poll 0]) 0 = [tiny_summary 1]"
proof -
  have "sv_got (serve_all versioned [Call 0, Send (tiny_summary 1), Poll 0]) 0 = [tiny_summary 1]"
    by (simp add: serve_all_def serving_start_def versioned_def book_summary_call_def poll_stream_def)
  with subscribers_independent [of 0 1 versioned "[Call 0, Call 1, Send (tiny_summary 1), Hang_Up 1, Poll 0]"]
  show ?thesis by simp
qed

end
