(* ===== verification/Telemetry.thy ===== *)
theory Telemetry
  imports Config
begin

text \<open>
  \<open>src/telemetry.rs\<close>, and the two installations the start of \<open>main\<close> makes once for the whole
  process: the tracing subscriber and the TLS provider. Both are library calls on process-wide
  state, \<open>'g\<close>; they enter as the record of their operations, of which the locale states that
  each succeeds while its own installation has not been made. \<open>'f\<close> is the library's filter.
\<close>

section \<open>The libraries\<close>

datatype writer = Stdout | Stderr

record 'f subscriber =
  sb_env_filter :: 'f
  sb_writer :: writer
  sb_ansi :: bool
  sb_target :: bool

text \<open>
  \<open>try_from_default_env\<close> is None where \<open>RUST_LOG\<close> is unset or is not a filter; \<open>init\<close> panics, and
  \<open>install_default\<close> is an error, where there is an installation already.
\<close>

record ('f, 'g) process_ops =
  po_try_from_default_env :: "env \<Rightarrow> 'f option"
  po_env_filter_new :: "string \<Rightarrow> 'f"
  po_init :: "'f subscriber \<Rightarrow> 'g \<Rightarrow> 'g outcome"
  po_install_default :: "'g \<Rightarrow> 'g option"

locale process_globals =
  fixes ops :: "('f, 'g) process_ops"
    and subscriber :: "'g \<Rightarrow> 'f subscriber option"
    and provider :: "'g \<Rightarrow> bool"
  assumes init_panics: "po_init ops sb g = Panic \<longleftrightarrow> subscriber g \<noteq> None"
    and init_subscriber: "po_init ops sb g = Done g' \<Longrightarrow> subscriber g' = Some sb"
    and init_provider: "po_init ops sb g = Done g' \<Longrightarrow> provider g' = provider g"
    and install_fails: "po_install_default ops g = None \<longleftrightarrow> provider g"
    and install_provider: "po_install_default ops g = Some g' \<Longrightarrow> provider g'"
    and install_subscriber: "po_install_default ops g = Some g' \<Longrightarrow> subscriber g' = subscriber g"

section \<open>Logging\<close>

definition telemetry_init :: "('f, 'g) process_ops \<Rightarrow> env \<Rightarrow> bool \<Rightarrow> string \<Rightarrow> 'g \<Rightarrow> 'g outcome" where
  "telemetry_init ops var is_terminal filter_text g =
     (let env_filter = (case po_try_from_default_env ops var of
            Some f \<Rightarrow> f | None \<Rightarrow> po_env_filter_new ops filter_text)
      in po_init ops \<lparr>sb_env_filter = env_filter, sb_writer = Stderr, sb_ansi = is_terminal,
           sb_target = False\<rparr> g)"

text \<open>The provider is installed right after; the code expects that there is none yet.\<close>

definition install_globals :: "('f, 'g) process_ops \<Rightarrow> env \<Rightarrow> bool \<Rightarrow> string \<Rightarrow> 'g \<Rightarrow> 'g outcome" where
  "install_globals ops var is_terminal filter_text g =
     bind_outcome (telemetry_init ops var is_terminal filter_text g) (\<lambda>g.
       case po_install_default ops g of None \<Rightarrow> Panic | Some g \<Rightarrow> Done g)"

context process_globals
begin

text \<open>What is installed, and that the calls succeed exactly in a process that made neither.\<close>

lemma install_globals_done:
  assumes "subscriber g = None" "\<not> provider g"
  shows "\<exists>g'. install_globals ops var is_terminal level g = Done g' \<and> provider g'
    \<and> subscriber g' = Some \<lparr>sb_env_filter = (case po_try_from_default_env ops var of
         Some f \<Rightarrow> f | None \<Rightarrow> po_env_filter_new ops level), sb_writer = Stderr, sb_ansi = is_terminal,
         sb_target = False\<rparr>"
proof -
  let ?sb = "\<lparr>sb_env_filter = (case po_try_from_default_env ops var of
      Some f \<Rightarrow> f | None \<Rightarrow> po_env_filter_new ops level), sb_writer = Stderr, sb_ansi = is_terminal,
      sb_target = False\<rparr>"
  obtain g1 where g1: "po_init ops ?sb g = Done g1"
    using assms(1) init_panics [of ?sb g] by (cases "po_init ops ?sb g") auto
  obtain g2 where g2: "po_install_default ops g1 = Some g2"
    using assms(2) init_provider [OF g1] install_fails [of g1] by (cases "po_install_default ops g1") auto
  show ?thesis
    using g1 g2 install_provider [OF g2] install_subscriber [OF g2] init_subscriber [OF g1]
    by (simp add: install_globals_def telemetry_init_def)
qed

lemma install_globals_twice:
  assumes "install_globals ops var is_terminal level g = Done g'"
  shows "install_globals ops var' is_terminal' level' g' = Panic"
proof -
  obtain sb g1 where "po_init ops sb g = Done g1" "po_install_default ops g1 = Some g'"
    using assms by (auto simp: install_globals_def telemetry_init_def elim!: bind_outcome_DoneE split: option.splits)
  then have "subscriber g' \<noteq> None" using install_subscriber init_subscriber by fastforce
  then have "po_init ops sb' g' = Panic" for sb' using init_panics by blast
  then show ?thesis by (simp add: install_globals_def telemetry_init_def Let_def)
qed

end

text \<open>The installations as a pair of cells, written once; \<open>filters\<close> are texts here.\<close>

definition cells :: "(string, string subscriber option \<times> bool) process_ops" where
  "cells = \<lparr>po_try_from_default_env = (\<lambda>var. var ''RUST_LOG''), po_env_filter_new = (\<lambda>s. s),
     po_init = (\<lambda>sb (s, p). case s of None \<Rightarrow> Done (Some sb, p) | Some _ \<Rightarrow> Panic),
     po_install_default = (\<lambda>(s, p). if p then None else Some (s, True))\<rparr>"

interpretation cells: process_globals cells fst snd
  by unfold_locales (auto simp: cells_def split: option.splits if_splits)

end
