(* ===== verification/Bind_Addr.thy ===== *)
theory Bind_Addr
  imports Telemetry
begin

text \<open>
  The start of \<open>main\<close> in \<open>src/main.rs\<close> up to the bind address: the settings, and
  \<open>SocketAddr::from_str\<close> of the standard library on the host and port they give. A reader takes
  a prefix of the text and returns its value and the rest; where it fails nothing is taken.
\<close>

section \<open>Readers\<close>

type_synonym 'a reader = "string \<Rightarrow> ('a \<times> string) option"

definition to_digit :: "nat \<Rightarrow> char \<Rightarrow> nat option" where
  "to_digit radix c =
     (let d = (if is_digit c then digit_val c
               else if 97 \<le> char_code (to_lower c) \<and> char_code (to_lower c) \<le> 122
               then char_code (to_lower c) - 87 else radix)
      in if d < radix then Some d else None)"

fun read_digits :: "nat \<Rightarrow> string \<Rightarrow> nat list \<times> string" where
  "read_digits radix [] = ([], [])"
| "read_digits radix (c # s) =
     (case to_digit radix c of
        None \<Rightarrow> ([], c # s)
      | Some d \<Rightarrow> let (ds, rest) = read_digits radix s in (d # ds, rest))"

definition read_number :: "nat \<Rightarrow> nat option \<Rightarrow> bool \<Rightarrow> nat \<Rightarrow> nat reader" where
  "read_number radix max_digits allow_zero_prefix bound s =
     (let (ds, rest) = read_digits radix s;
          result = foldl (\<lambda>n d. n * radix + d) 0 ds
      in if (case max_digits of None \<Rightarrow> False | Some m \<Rightarrow> m < length ds) then None
         else if ds = [] then None
         else if \<not> allow_zero_prefix \<and> hd ds = 0 \<and> 1 < length ds then None
         else if bound \<le> result then None
         else Some (result, rest))"

fun read_given_char :: "char \<Rightarrow> unit reader" where
  "read_given_char c [] = None"
| "read_given_char c (x # s) = (if x = c then Some ((), s) else None)"

text \<open>\<open>read_separator\<close>: the separator is due at every index but the first.\<close>

definition read_separator :: "char \<Rightarrow> bool \<Rightarrow> 'a reader \<Rightarrow> 'a reader" where
  "read_separator sep is_first inner s =
     (if is_first then inner s
      else case read_given_char sep s of None \<Rightarrow> None | Some (_, s) \<Rightarrow> inner s)"

fun read_octets :: "nat \<Rightarrow> bool \<Rightarrow> nat list reader" where
  "read_octets 0 is_first s = Some ([], s)"
| "read_octets (Suc n) is_first s =
     (case read_separator CHR ''.'' is_first (read_number 10 (Some 3) False 256) s of
        None \<Rightarrow> None
      | Some (x, s) \<Rightarrow>
          (case read_octets n False s of None \<Rightarrow> None | Some (xs, s) \<Rightarrow> Some (x # xs, s)))"

definition read_ipv4_addr :: "nat list reader" where
  "read_ipv4_addr s = read_octets 4 True s"

definition groups_of_octets :: "nat list \<Rightarrow> nat list" where
  "groups_of_octets xs = [xs ! 0 * 256 + xs ! 1, xs ! 2 * 256 + xs ! 3]"

text \<open>
  Up to \<open>n\<close> groups of sixteen bits; a dotted IPv4 address stands for the last two. The result
  says whether the groups ended with one.
\<close>

fun read_groups :: "nat \<Rightarrow> bool \<Rightarrow> string \<Rightarrow> nat list \<times> bool \<times> string" where
  "read_groups 0 is_first s = ([], False, s)"
| "read_groups (Suc n) is_first s =
     (case (if 0 < n then read_separator CHR '':'' is_first read_ipv4_addr s else None) of
        Some (octets, s) \<Rightarrow> (groups_of_octets octets, True, s)
      | None \<Rightarrow>
          (case read_separator CHR '':'' is_first (read_number 16 (Some 4) True 65536) s of
             None \<Rightarrow> ([], False, s)
           | Some (g, s) \<Rightarrow> let (gs, ipv4, s) = read_groups n False s in (g # gs, ipv4, s)))"

definition read_ipv6_addr :: "nat list reader" where
  "read_ipv6_addr s =
     (let (head, head_ipv4, s) = read_groups 8 True s
      in if length head = 8 then Some (head, s)
         else if head_ipv4 then None
         else case read_given_char CHR '':'' s of
                None \<Rightarrow> None
              | Some (_, s) \<Rightarrow>
                  (case read_given_char CHR '':'' s of
                     None \<Rightarrow> None
                   | Some (_, s) \<Rightarrow>
                       let (tail, _, s) = read_groups (8 - (length head + 1)) True s
                       in Some (head @ replicate (8 - length head - length tail) 0 @ tail, s)))"

definition read_port :: "nat reader" where
  "read_port s =
     (case read_given_char CHR '':'' s of
        None \<Rightarrow> None | Some (_, s) \<Rightarrow> read_number 10 None True (2 ^ 16) s)"

definition read_scope_id :: "nat reader" where
  "read_scope_id s =
     (case read_given_char CHR ''%'' s of
        None \<Rightarrow> None | Some (_, s) \<Rightarrow> read_number 10 None True (2 ^ 32) s)"

section \<open>Socket addresses\<close>

datatype socket_addr =
    V4 "nat list" u16
  | V6 "nat list" nat u16

definition read_socket_addr_v4 :: "socket_addr reader" where
  "read_socket_addr_v4 s =
     (case read_ipv4_addr s of
        None \<Rightarrow> None
      | Some (ip, s) \<Rightarrow>
          (case read_port s of None \<Rightarrow> None | Some (p, s) \<Rightarrow> Some (V4 ip (word_of_nat p), s)))"

definition read_socket_addr_v6 :: "socket_addr reader" where
  "read_socket_addr_v6 s =
     (case read_given_char CHR ''['' s of
        None \<Rightarrow> None
      | Some (_, s) \<Rightarrow>
          (case read_ipv6_addr s of
             None \<Rightarrow> None
           | Some (ip, s) \<Rightarrow>
               let (scope, s) = (case read_scope_id s of None \<Rightarrow> (0, s) | Some (i, s) \<Rightarrow> (i, s))
               in case read_given_char CHR '']'' s of
                    None \<Rightarrow> None
                  | Some (_, s) \<Rightarrow>
                      (case read_port s of
                         None \<Rightarrow> None
                       | Some (p, s) \<Rightarrow> Some (V6 ip scope (word_of_nat p), s))))"

definition parse_socket_addr :: "string \<Rightarrow> socket_addr option" where
  "parse_socket_addr s =
     (case (case read_socket_addr_v4 s of None \<Rightarrow> read_socket_addr_v6 s | r \<Rightarrow> r) of
        Some (addr, []) \<Rightarrow> Some addr
      | _ \<Rightarrow> None)"

lemma parse_socket_addr_samples:
  "parse_socket_addr ''127.0.0.1:50051'' = Some (V4 [127, 0, 0, 1] 50051)"
  "parse_socket_addr ''[::1]:80'' = Some (V6 [0, 0, 0, 0, 0, 0, 0, 1] 0 80)"
  "parse_socket_addr ''[fe80::1:2%3]:80'' = Some (V6 [0xfe80, 0, 0, 0, 0, 0, 1, 2] 3 80)"
  "parse_socket_addr ''[::ffff:1.2.3.4]:80'' = Some (V6 [0, 0, 0, 0, 0, 0xffff, 0x102, 0x304] 0 80)"
  "parse_socket_addr ''[1:2:3:4:5:6:7:8]:80'' = Some (V6 [1, 2, 3, 4, 5, 6, 7, 8] 0 80)"
  "parse_socket_addr ''::1:80'' = None" "parse_socket_addr ''localhost:80'' = None"
  "parse_socket_addr ''127.0.0.01:80'' = None" "parse_socket_addr ''127.0.0.256:80'' = None"
  "parse_socket_addr ''127.0.0.1'' = None" "parse_socket_addr ''127.0.0.1:65536'' = None"
  "parse_socket_addr ''127.0.0.1:80 '' = None"
  by code_simp+

section \<open>The start of \<open>main\<close>\<close>

text \<open>The error a process that cannot start ends with.\<close>

datatype start_error = Config_Error config_error | Invalid_Bind_Address string

definition main_start :: "('f, 'g) process_ops \<Rightarrow> bool \<Rightarrow> cli \<Rightarrow> env \<Rightarrow> 'g \<Rightarrow>
    ('g \<times> (start_error + config \<times> socket_addr)) outcome" where
  "main_start ops is_terminal cli var g =
     (case main_config cli var of
        Inl e \<Rightarrow> Done (g, Inl (Config_Error e))
      | Inr config \<Rightarrow>
          bind_outcome (install_globals ops var is_terminal (cf_log_level config) g) (\<lambda>g.
            case parse_socket_addr (bind_addr config) of
              None \<Rightarrow> Done (g, Inl (Invalid_Bind_Address (''invalid bind address '' @ bind_addr config)))
            | Some addr \<Rightarrow> Done (g, Inr (config, addr))))"

section \<open>Printed addresses are read back\<close>

definition stops :: "string \<Rightarrow> bool" where
  "stops s \<longleftrightarrow> (case s of [] \<Rightarrow> True | c # _ \<Rightarrow> to_digit 10 c = None)"

lemma to_digit_char [simp]: "d < 10 \<Longrightarrow> to_digit 10 (digit_char d) = Some d"
  by (simp add: to_digit_def)

lemma read_digits_stops: "stops s \<Longrightarrow> read_digits 10 s = ([], s)"
  by (cases s) (simp_all add: stops_def)

lemma read_digits_append:
  "(\<And>c. c \<in> set ds \<Longrightarrow> to_digit 10 c = Some (digit_val c)) \<Longrightarrow> stops s \<Longrightarrow>
     read_digits 10 (ds @ s) = (map digit_val ds, s)"
  by (induction ds) (simp_all add: read_digits_stops)

lemma read_digits_show_nat: "stops s \<Longrightarrow> read_digits 10 (show_nat n @ s) = (map digit_val (show_nat n), s)"
  using show_nat_digits [of n]
  by (intro read_digits_append) (auto simp: to_digit_def is_digit_def digit_val_def Let_def)

lemma foldl_digits: "foldl (\<lambda>n d. n * 10 + d) m (map digit_val ds) = foldl (\<lambda>n c. 10 * n + digit_val c) m ds"
  by (induction ds arbitrary: m) (simp_all add: mult.commute)

lemma read_number_show_nat:
  assumes "stops s" "n < bound" "case max_digits of None \<Rightarrow> True | Some m \<Rightarrow> length (show_nat n) \<le> m"
    "zero \<or> length (show_nat n) = 1 \<or> digit_val (hd (show_nat n)) \<noteq> 0"
  shows "read_number 10 max_digits zero bound (show_nat n @ s) = Some (n, s)"
  using assms digits_val_show_nat [of n]
  by (auto simp: read_number_def read_digits_show_nat foldl_digits hd_map digits_val_def [symmetric]
      split: option.splits)

lemma show_nat_octet:
  assumes "n < 256"
  shows "length (show_nat n) \<le> 3" "length (show_nat n) = 1 \<or> digit_val (hd (show_nat n)) \<noteq> 0"
proof -
  have "length (show_nat n) \<le> 3 \<and> (length (show_nat n) = 1 \<or> digit_val (hd (show_nat n)) \<noteq> 0)"
  proof -
    consider "n < 10" | "\<not> n < 10" "n div 10 < 10" "n div 10 \<noteq> 0"
      | "\<not> n < 10" "\<not> n div 10 < 10" "n div 10 div 10 < 10" "n div 10 div 10 \<noteq> 0"
      using assms by linarith
    then show ?thesis
      by cases (simp_all add: show_nat.simps [of n] show_nat.simps [of "n div 10"]
          show_nat.simps [of "n div 10 div 10"])
  qed
  then show "length (show_nat n) \<le> 3" "length (show_nat n) = 1 \<or> digit_val (hd (show_nat n)) \<noteq> 0" by blast+
qed

lemma read_octet: "n < 256 \<Longrightarrow> stops s \<Longrightarrow> read_number 10 (Some 3) False 256 (show_nat n @ s) = Some (n, s)"
  using show_nat_octet [of n] by (intro read_number_show_nat) simp_all

definition dotted :: "nat \<Rightarrow> nat \<Rightarrow> nat \<Rightarrow> nat \<Rightarrow> string" where
  "dotted a b c d = show_nat a @ ''.'' @ show_nat b @ ''.'' @ show_nat c @ ''.'' @ show_nat d"

lemma stops_simps [simp]: "stops (CHR ''.'' # s)" "stops (CHR '':'' # s)" "stops []"
  by (simp_all add: stops_def to_digit_def char_code_def to_lower_def)

lemma read_ipv4_addr_eq: "read_ipv4_addr s = read_octets (Suc (Suc (Suc (Suc 0)))) True s"
  by (simp add: read_ipv4_addr_def eval_nat_numeral)

lemma parse_dotted:
  assumes "a < 256" "b < 256" "c < 256" "d < 256"
  shows "parse_socket_addr (dotted a b c d @ '':'' @ show_nat (unat port)) = Some (V4 [a, b, c, d] port)"
proof -
  have "read_ipv4_addr (dotted a b c d @ '':'' @ show_nat (unat port)) =
      Some ([a, b, c, d], '':'' @ show_nat (unat port))"
    using assms by (simp add: read_ipv4_addr_eq dotted_def read_separator_def read_octet)
  moreover have "read_number 10 None True (2 ^ 16) (show_nat (unat port) @ []) = Some (unat port, [])"
    using unsigned_less [of port, where ?'a = nat] by (intro read_number_show_nat) simp_all
  ultimately show ?thesis by (simp add: parse_socket_addr_def read_socket_addr_v4_def read_port_def)
qed

text \<open>A host that is no address is refused at its first character.\<close>

lemma parse_refuses:
  assumes "host = c # rest" "\<not> is_digit c" "c \<noteq> CHR ''[''"
  shows "parse_socket_addr (host @ s) = None"
proof -
  have "to_digit 10 c = None" using assms(2) by (auto simp: to_digit_def Let_def)
  then have "read_number 10 (Some 3) False 256 (c # rest @ s) = None" by (simp add: read_number_def)
  then have "read_ipv4_addr (c # rest @ s) = None"
    by (simp add: read_ipv4_addr_eq read_separator_def)
  then show ?thesis
    using assms by (simp add: parse_socket_addr_def read_socket_addr_v4_def read_socket_addr_v6_def)
qed

section \<open>Properties\<close>

text \<open>
  C39. The process gets past its start exactly with the settings it is given: each comes from
  the command line, else its variable, else its default; a port variable that is no port is
  fatal whatever the command line says; with a dotted IPv4 host it binds that very address and
  port; and a host that begins with neither a digit nor a bracket, such as \<open>localhost\<close> or a
  bare IPv6 address, is refused with an error that names the address. The installation of the
  TLS provider, which the code expects to succeed, does; the log goes to the standard error
  with the filter of \<open>RUST_LOG\<close> where that is a filter, else with that of the settings.
\<close>

theorem main_start_binds:
  assumes "process_globals ops subscriber provider" "subscriber g = None" "\<not> provider g"
  shows "(case (case var ''ORDERBOOK_PORT'' of None \<Rightarrow> Inr 50051 | Some raw \<Rightarrow>
              (case parse_u16 raw of None \<Rightarrow> Inl (InvalidPort raw) | Some p \<Rightarrow> Inr p)) of
        Inl e \<Rightarrow> main_start ops is_terminal cli var g = Done (g, Inl (Config_Error e))
      | Inr p \<Rightarrow>
          (let host = unwrap_or (var ''ORDERBOOK_HOST'') ''127.0.0.1''; port = unwrap_or (cli_port cli) p;
               addr = host @ '':'' @ show_nat (unat port);
               level = unwrap_or (var ''ORDERBOOK_LOG_LEVEL'') ''info''
           in \<exists>g'. main_start ops is_terminal cli var g = Done (g', case parse_socket_addr addr of
                None \<Rightarrow> Inl (Invalid_Bind_Address (''invalid bind address '' @ addr))
              | Some a \<Rightarrow> Inr (\<lparr>cf_log_level = level, cf_host = host, cf_port = port,
                  cf_pair = unwrap_or (cli_pair cli) (unwrap_or (var ''ORDERBOOK_PAIR'') ''ethbtc'')\<rparr>, a))
              \<and> provider g' \<and> subscriber g' = Some \<lparr>
                  sb_env_filter = unwrap_or (po_try_from_default_env ops var) (po_env_filter_new ops level),
                  sb_writer = Stderr, sb_ansi = is_terminal, sb_target = False\<rparr>))
   \<and> (a < 256 \<and> b < 256 \<and> c < 256 \<and> d < 256 \<longrightarrow>
        parse_socket_addr (dotted a b c d @ '':'' @ show_nat (unat port)) = Some (V4 [a, b, c, d] port))
   \<and> (\<not> is_digit x \<and> x \<noteq> CHR ''['' \<longrightarrow>
        parse_socket_addr ((x # host) @ '':'' @ show_nat (unat port)) = None)"
proof (intro conjI impI, goal_cases)
  case 1
  have "\<exists>g'. install_globals ops var is_terminal level g = Done g' \<and> provider g'
      \<and> subscriber g' = Some \<lparr>sb_env_filter = unwrap_or (po_try_from_default_env ops var) (po_env_filter_new ops level),
          sb_writer = Stderr, sb_ansi = is_terminal, sb_target = False\<rparr>" for level
    using process_globals.install_globals_done [OF assms] by (fastforce simp: unwrap_or_def split: option.split)
  from this [of "unwrap_or (var ''ORDERBOOK_LOG_LEVEL'') ''info''"] show ?case
    by (auto simp: main_start_def main_config_eq bind_addr_def Let_def split: option.split)
next
  case 2
  then show ?case by (intro parse_dotted) simp_all
next
  case 3
  then show ?case by (intro parse_refuses [OF refl]) simp_all
qed

theorem main_start_binds_witness:
  "\<exists>g'. main_start cells False \<lparr>cli_pair = None, cli_port = None\<rparr> (\<lambda>_. None) (None, False)
       = Done (g', Inr (config_default, V4 [127, 0, 0, 1] 50051))
     \<and> map_option sb_env_filter (fst g') = Some ''info''"
proof -
  have addr: "''127.0.0.1'' @ '':'' @ show_nat (unat (50051 :: u16)) = dotted 127 0 0 1 @ '':'' @ show_nat (unat (50051 :: u16))"
    by code_simp
  note start = main_start_binds [OF cells.process_globals_axioms, where g = "(None, False)" and var = "\<lambda>_. None"
    and is_terminal = False and cli = "\<lparr>cli_pair = None, cli_port = None\<rparr>" and a = 127 and b = 0 and c = 0 and d = 1
    and port = 50051]
  have "parse_socket_addr (''127.0.0.1'' @ '':'' @ show_nat (unat (50051 :: u16))) = Some (V4 [127, 0, 0, 1] 50051)"
    unfolding addr using start by simp
  moreover have "po_try_from_default_env cells (\<lambda>_. None) = None" "po_env_filter_new cells level = level" for level
    by (simp_all add: cells_def)
  ultimately show ?thesis
    using conjunct1 [OF start] by (fastforce simp: unwrap_or_def Let_def config_default_def)
qed

end
