(* ===== verification/System.thy ===== *)
theory System
  imports Feed_Books Watch_Service Bind_Addr
begin

text \<open>
  \<open>src/main.rs\<close>, the tasks together: three feeds, the aggregator and the server run concurrently,
  joined by the bounded channel of parsed books; \<open>main\<close> waits for the first task to end. A feed
  takes no input from the others except that it waits while the channel is full, so it is the
  trace of its run, performed action by action; what the tasks do in between one another is a
  step relation. The channel is tokio's and enters as the record of its operations \<open>ch\<close>, of
  which the locale states what its documentation says.
\<close>

section \<open>The channel\<close>

text \<open>\<open>ch_send\<close> is None while there is no room, \<open>ch_recv\<close> while there is no message.\<close>

record ('a, 'c) channel_ops =
  ch_new :: "nat \<Rightarrow> 'c"
  ch_send :: "'a \<Rightarrow> 'c \<Rightarrow> 'c option"
  ch_recv :: "'c \<Rightarrow> ('a \<times> 'c) option"

type_synonym message = "venue \<times> book"

locale bounded_channel =
  fixes ch :: "(message, 'c) channel_ops"
    and queued :: "'c \<Rightarrow> message list"
    and bound :: "'c \<Rightarrow> nat"
  assumes new_queued: "queued (ch_new ch n) = []"
    and new_bound: "bound (ch_new ch n) = n"
    and send_full: "ch_send ch x c = None \<longleftrightarrow> bound c \<le> length (queued c)"
    and send_queued: "ch_send ch x c = Some c' \<Longrightarrow> queued c' = queued c @ [x]"
    and send_bound: "ch_send ch x c = Some c' \<Longrightarrow> bound c' = bound c"
    and recv_empty: "ch_recv ch c = None \<longleftrightarrow> queued c = []"
    and recv_queued: "ch_recv ch c = Some (x, c') \<Longrightarrow> queued c = x # queued c'"
    and recv_bound: "ch_recv ch c = Some (x, c') \<Longrightarrow> bound c' = bound c"
begin

lemma send_room: "length (queued c) < bound c \<Longrightarrow> \<exists>c'. ch_send ch x c = Some c'"
  using send_full [of x c] by (cases "ch_send ch x c") auto

lemma recv_some: "queued c \<noteq> [] \<Longrightarrow> \<exists>x c'. ch_recv ch c = Some (x, c')"
  using recv_empty [of c] by (cases "ch_recv ch c") auto

lemma send_within: "ch_send ch x c = Some c' \<Longrightarrow> length (queued c') \<le> bound c"
  using send_full [of x c] by (simp add: send_queued send_bound)

end

text \<open>A list with its capacity is such a channel.\<close>

definition list_channel :: "(message, nat \<times> message list) channel_ops" where
  "list_channel = \<lparr>ch_new = (\<lambda>n. (n, [])),
     ch_send = (\<lambda>x (n, xs). if length xs < n then Some (n, xs @ [x]) else None),
     ch_recv = (\<lambda>(n, xs). case xs of [] \<Rightarrow> None | y # ys \<Rightarrow> Some (y, n, ys))\<rparr>"

interpretation list_channel: bounded_channel list_channel snd fst
  by unfold_locales (auto simp: list_channel_def split: if_splits list.splits)

section \<open>The state of the process\<close>

text \<open>
  What each feed has still to do, the channel and whether its receiver lives, the aggregator's
  state and loop variable, the server's outcome once it has one, the tasks that have ended, and
  the result of \<open>main\<close>; beside them the history: the events the aggregator took and what it emitted.
\<close>

record ('h, 'c, 'e) system =
  sy_feed :: "venue \<Rightarrow> action list"
  sy_channel :: 'c
  sy_open :: bool
  sy_aggregator :: "'h aggregator"
  sy_last_count :: u64
  sy_server :: "'e joined option"
  sy_ended :: "'e joined list"
  sy_result :: "((string \<times> 'e option) + unit) option"
  sy_events :: "event list"
  sy_emitted :: "emitted list"

definition CHANNEL_CAPACITY :: nat where
  "CHANNEL_CAPACITY = 32"

record feed_env =
  fe_binance :: "string \<Rightarrow> depth20 option"
  fe_bitstamp :: "string \<Rightarrow> envelope option"
  fe_kraken :: kraken_env
  fe_var :: env
  fe_started_at :: "venue \<Rightarrow> instant"
  fe_cycles :: "venue \<Rightarrow> cycle list"

definition feed_task :: "feed_env \<Rightarrow> string \<Rightarrow> venue \<Rightarrow> action list outcome" where
  "feed_task fe pair v =
     (case v of
        Binance \<Rightarrow> bind_outcome (run_feed (binance (fe_binance fe)) (fe_var fe) pair ()
          (fe_started_at fe v) (fe_cycles fe v)) (\<lambda>(s, out). Done out)
      | Bitstamp \<Rightarrow> bind_outcome (run_feed (bitstamp (fe_bitstamp fe)) (fe_var fe) pair ()
          (fe_started_at fe v) (fe_cycles fe v)) (\<lambda>(s, out). Done out)
      | Kraken \<Rightarrow> bind_outcome (run_feed (kraken (fe_kraken fe)) (fe_var fe) pair kraken_new
          (fe_started_at fe v) (fe_cycles fe v)) (\<lambda>(s, out). Done out))"

definition spawn_tasks :: "'h histogram_ops \<Rightarrow> (message, 'c) channel_ops \<Rightarrow> feed_env \<Rightarrow> config \<Rightarrow>
    ('h, 'c, 'e) system outcome" where
  "spawn_tasks ops ch fe config =
     (let pair = cf_pair config
      in bind_outcome (feed_task fe pair Binance) (\<lambda>bin.
         bind_outcome (feed_task fe pair Bitstamp) (\<lambda>bit.
         bind_outcome (feed_task fe pair Kraken) (\<lambda>kra.
           Done \<lparr>sy_feed = (\<lambda>v. case v of Binance \<Rightarrow> bin | Bitstamp \<Rightarrow> bit | Kraken \<Rightarrow> kra),
             sy_channel = ch_new ch CHANNEL_CAPACITY, sy_open = True,
             sy_aggregator = aggregator_new ops, sy_last_count = 0, sy_server = None,
             sy_ended = [], sy_result = None, sy_events = [], sy_emitted = []\<rparr>))))"

text \<open>\<open>main\<close> up to where it waits: its start, then the tasks with the settings that gives.\<close>

definition main_process :: "('f, 'g) process_ops \<Rightarrow> bool \<Rightarrow> cli \<Rightarrow> 'h histogram_ops \<Rightarrow>
    (message, 'c) channel_ops \<Rightarrow> feed_env \<Rightarrow> 'g \<Rightarrow>
    (start_error + config \<times> socket_addr \<times> ('h, 'c, 'e) system) outcome" where
  "main_process po is_terminal cli ops ch fe g =
     bind_outcome (main_start po is_terminal cli (fe_var fe) g) (\<lambda>(g, started).
       case started of
         Inl e \<Rightarrow> Done (Inl e)
       | Inr (config, addr) \<Rightarrow>
           bind_outcome (spawn_tasks ops ch fe config) (\<lambda>s. Done (Inr (config, addr, s))))"

section \<open>Steps\<close>

definition emit :: "summary option \<Rightarrow> emitted list" where
  "emit sent = (case sent of None \<Rightarrow> [] | Some s \<Rightarrow> [Published s])"

fun server_outcome :: "'e joined \<Rightarrow> bool" where
  "server_outcome (Ended c) = (c = Server)"
| "server_outcome (Failed c e) = (c = Server)"
| "server_outcome (Join_Error is_panic) = True"
| "server_outcome Empty_Set = False"

text \<open>The server's task; \<open>served\<close> is the error of \<open>serve\<close>, if any. Its outcome is one of those.\<close>

definition server_task :: "('d \<Rightarrow> 'l option) \<Rightarrow> 'd \<Rightarrow> 'r \<Rightarrow> 'e option \<Rightarrow> 'e joined" where
  "server_task build_v1 descriptor_set rx served =
     (case router build_v1 descriptor_set rx of
        Panic \<Rightarrow> Join_Error True
      | Done _ \<Rightarrow> (case served of None \<Rightarrow> Ended Server | Some e \<Rightarrow> Failed Server e))"

lemma server_task_outcome: "server_outcome (server_task build_v1 descriptor_set rx served)"
  by (simp add: server_task_def split: outcome.split option.split)

text \<open>
  A send waits for room and fails once the receiver is gone, which the feed ignores; the
  aggregator drops the receiver when it returns. Tasks go on until \<open>main\<close> has its result.
\<close>

inductive sys_step :: "'h histogram_ops \<Rightarrow> (message, 'c) channel_ops \<Rightarrow> instant \<Rightarrow>
    ('h, 'c, 'e) system \<Rightarrow> ('h, 'c, 'e) system \<Rightarrow> bool" for ops ch started_at where
  feed_acts: "sy_result s = None \<Longrightarrow> sy_feed s v = a # todo \<Longrightarrow> forwards [a] = [] \<Longrightarrow>
    sys_step ops ch started_at s (s\<lparr>sy_feed := (sy_feed s)(v := todo)\<rparr>)"
| feed_sends: "sy_result s = None \<Longrightarrow> sy_feed s v = Forward w b # todo \<Longrightarrow> sy_open s \<Longrightarrow>
    ch_send ch (w, b) (sy_channel s) = Some c \<Longrightarrow>
    sys_step ops ch started_at s (s\<lparr>sy_feed := (sy_feed s)(v := todo), sy_channel := c\<rparr>)"
| feed_send_fails: "sy_result s = None \<Longrightarrow> sy_feed s v = Forward w b # todo \<Longrightarrow> \<not> sy_open s \<Longrightarrow>
    sys_step ops ch started_at s (s\<lparr>sy_feed := (sy_feed s)(v := todo)\<rparr>)"
| agg_receives: "sy_result s = None \<Longrightarrow> sy_open s \<Longrightarrow> ch_recv ch (sy_channel s) = Some ((v, b), c) \<Longrightarrow>
    record_and_publish ops (sy_aggregator s) v b t = Done (ag, sent) \<Longrightarrow>
    sys_step ops ch started_at s (s\<lparr>sy_channel := c, sy_aggregator := ag,
      sy_events := sy_events s @ [Message v b t], sy_emitted := sy_emitted s @ emit sent\<rparr>)"
| agg_panics: "sy_result s = None \<Longrightarrow> sy_open s \<Longrightarrow> ch_recv ch (sy_channel s) = Some ((v, b), c) \<Longrightarrow>
    record_and_publish ops (sy_aggregator s) v b t = Panic \<Longrightarrow>
    sys_step ops ch started_at s (s\<lparr>sy_open := False, sy_ended := Join_Error True # sy_ended s\<rparr>)"
| agg_waits: "sy_result s = None \<Longrightarrow> sy_open s \<Longrightarrow>
    \<not> past_grace started_at now (bt_is_empty (ag_venues (sy_aggregator s))) \<Longrightarrow>
    sys_step ops ch started_at s (s\<lparr>sy_events := sy_events s @ [Grace_Tick now]\<rparr>)"
| agg_gives_up: "sy_result s = None \<Longrightarrow> sy_open s \<Longrightarrow>
    past_grace started_at now (bt_is_empty (ag_venues (sy_aggregator s))) \<Longrightarrow>
    sys_step ops ch started_at s (s\<lparr>sy_open := False, sy_ended := Ended Aggregator # sy_ended s,
      sy_events := sy_events s @ [Grace_Tick now]\<rparr>)"
| agg_reports: "sy_result s = None \<Longrightarrow> sy_open s \<Longrightarrow>
    log_report ops (sy_aggregator s) (sy_last_count s) REPORT_INTERVAL = (ag, r) \<Longrightarrow>
    sys_step ops ch started_at s (s\<lparr>sy_aggregator := ag, sy_last_count := ag_update_count ag,
      sy_events := sy_events s @ [Report_Tick], sy_emitted := sy_emitted s @ [Reported r]\<rparr>)"
| server_ends: "sy_result s = None \<Longrightarrow> sy_server s = None \<Longrightarrow> server_outcome j \<Longrightarrow>
    sys_step ops ch started_at s (s\<lparr>sy_server := Some j, sy_ended := j # sy_ended s\<rparr>)"
| main_joins: "sy_result s = None \<Longrightarrow> j \<in> set (sy_ended s) \<Longrightarrow>
    sys_step ops ch started_at s (s\<lparr>sy_result := Some (main_result j)\<rparr>)"

inductive_cases sys_stepE: "sys_step ops ch started_at s s'"

abbreviation sys_steps :: "'h histogram_ops \<Rightarrow> (message, 'c) channel_ops \<Rightarrow> instant \<Rightarrow>
    ('h, 'c, 'e) system \<Rightarrow> ('h, 'c, 'e) system \<Rightarrow> bool" where
  "sys_steps ops ch started_at \<equiv> (sys_step ops ch started_at)\<^sup>*\<^sup>*"

section \<open>The spawned tasks\<close>

definition feed_book :: "venue \<Rightarrow> venue \<times> book \<Rightarrow> bool" where
  "feed_book v m \<longleftrightarrow> fst m = v \<and> (v = Kraken \<longrightarrow> kraken_shaped (snd m))"

lemma feed_task_books:
  assumes "feed_task fe pair v = Done out"
  shows "list_all (feed_book v) (forwards out)"
proof -
  have venues: "ex_venue (binance de) = Binance" "ex_venue (bitstamp de') = Bitstamp" "ex_venue (kraken env) = Kraken"
    for de de' env by (simp_all add: binance_def bitstamp_def kraken_def)
  from assms show ?thesis
    by (cases v) (auto simp: feed_task_def feed_book_def venues elim!: bind_outcome_DoneE
        elim: list.pred_mono_strong dest!: binance_books.run_feed_good bitstamp_books.run_feed_good kraken_books.run_feed_good)
qed

lemma feed_task_returns:
  assumes "list_all jitter_range (fe_cycles fe v)"
  shows "\<exists>out. feed_task fe pair v = Done out"
  using binance.run_feed_done [OF assms] bitstamp.run_feed_done [OF assms] kraken.run_feed_done [OF assms]
  by (cases v) (simp_all add: feed_task_def, (metis bind_outcome.simps(2) prod.case)+)

text \<open>What is known of the process when \<open>main\<close> starts to wait.\<close>

definition started :: "'h histogram_ops \<Rightarrow> (message, 'c) channel_ops \<Rightarrow> ('h, 'c, 'e) system \<Rightarrow> bool" where
  "started ops ch s \<longleftrightarrow> (\<forall>v. list_all (feed_book v) (forwards (sy_feed s v)))
     \<and> sy_channel s = ch_new ch CHANNEL_CAPACITY \<and> sy_open s \<and> sy_aggregator s = aggregator_new ops
     \<and> sy_last_count s = 0 \<and> sy_server s = None \<and> sy_ended s = [] \<and> sy_result s = None
     \<and> sy_events s = [] \<and> sy_emitted s = []"

lemma spawn_tasks_started: "spawn_tasks ops ch fe config = Done s \<Longrightarrow> started ops ch s"
  by (auto simp: spawn_tasks_def started_def Let_def dest: feed_task_books
      elim!: bind_outcome_DoneE split: venue.split)

lemma main_process_spawns:
  assumes "main_process po is_terminal cli ops ch fe g = Done (Inr (config, addr, s))"
  shows "spawn_tasks ops ch fe config = Done s \<and> parse_socket_addr (bind_addr config) = Some addr
    \<and> main_config cli (fe_var fe) = Inr config"
  using assms by (auto simp: main_process_def main_start_def elim!: bind_outcome_DoneE split: sum.splits option.splits)

lemma spawn_tasks_returns:
  assumes "\<And>v. list_all jitter_range (fe_cycles fe v)"
  shows "\<exists>s. spawn_tasks ops ch fe config = Done s"
proof -
  obtain b t k where "feed_task fe (cf_pair config) Binance = Done b"
    "feed_task fe (cf_pair config) Bitstamp = Done t" "feed_task fe (cf_pair config) Kraken = Done k"
    using feed_task_returns assms by metis
  then show ?thesis by (simp add: spawn_tasks_def)
qed

text \<open>Starting never panics: the installations are the first and the feeds return.\<close>

lemma main_process_returns:
  fixes ops :: "'h histogram_ops" and ch :: "(message, 'c) channel_ops"
  assumes "process_globals po subscriber provider" "subscriber g = None" "\<not> provider g"
    "\<And>v. list_all jitter_range (fe_cycles fe v)"
  shows "\<exists>r :: start_error + config \<times> socket_addr \<times> ('h, 'c, 'e) system.
    main_process po is_terminal cli ops ch fe g = Done r"
proof (cases "main_config cli (fe_var fe)")
  case (Inr config)
  from process_globals.install_globals_done [OF assms(1-3)] obtain g' where
    "install_globals po (fe_var fe) is_terminal (cf_log_level config) g = Done g'" by blast
  moreover obtain s :: "('h, 'c, 'e) system" where "spawn_tasks ops ch fe config = Done s"
    using spawn_tasks_returns [OF assms(4)] by blast
  ultimately show ?thesis using Inr
    by (cases "parse_socket_addr (bind_addr config)") (simp_all add: main_process_def main_start_def)
qed (simp add: main_process_def main_start_def)

lemma bind_outcome_Done [simp]: "bind_outcome x Done = x"
  by (cases x) simp_all

section \<open>Histories\<close>

fun received :: "event list \<Rightarrow> message list" where
  "received [] = []"
| "received (Message v b t # es) = (v, b) # received es"
| "received (e # es) = received es"

lemma received_append [simp]: "received (es @ fs) = received es @ received fs"
  by (induction es rule: received.induct) simp_all

text \<open>The last message of a venue, with its instant.\<close>

fun last_message :: "venue \<Rightarrow> event list \<Rightarrow> (book \<times> instant) option" where
  "last_message w [] = None"
| "last_message w (e # es) =
     (case last_message w es of
        Some m \<Rightarrow> Some m
      | None \<Rightarrow> (case e of Message v b t \<Rightarrow> if v = w then Some (b, fst t) else None | _ \<Rightarrow> None))"

lemma last_message_snoc [simp]:
  "last_message w (es @ [Message v b t]) = (if v = w then Some (b, fst t) else last_message w es)"
  "last_message w (es @ [Grace_Tick now]) = last_message w es"
  "last_message w (es @ [Report_Tick]) = last_message w es"
  by (induction es) (simp_all split: option.split)

lemma received_Cons: "m \<in> set (received es) \<Longrightarrow> m \<in> set (received (e # es))"
  by (cases e) simp_all

lemma last_message_received: "last_message w es = Some (b, t) \<Longrightarrow> (w, b) \<in> set (received es)"
  by (induction w es rule: last_message.induct) (auto intro: received_Cons simp del: received.simps(2-)
    split: option.splits event.splits if_splits simp: received.simps(2))

lemma no_last_message:
  assumes "\<And>w. last_message w es = None"
  shows "received es = []"
proof -
  have "received es \<noteq> [] \<Longrightarrow> \<exists>w. last_message w es \<noteq> None"
    by (induction es rule: received.induct) (auto split: option.splits)
  with assms show ?thesis by auto
qed

text \<open>What the history says is fresh at an instant.\<close>

definition fresh_message :: "instant \<Rightarrow> event list \<Rightarrow> venue \<Rightarrow> book option" where
  "fresh_message now es w =
     (case last_message w es of
        None \<Rightarrow> None
      | Some (b, t) \<Rightarrow> if duration_since now t < threshold_ns w then Some b else None)"

lemma fresh_books_history:
  assumes "bt_sorted venues"
    and "map_option (\<lambda>st. (vs_book st, vs_last_update st)) (bt_get venues w) = last_message w es"
  shows "bt_get (fresh_books venues now) w = fresh_message now es w"
proof -
  have "bt_get (fresh_books venues now) w = Some b \<longleftrightarrow> fresh_message now es w = Some b" for b
    unfolding fresh_books_get [OF assms(1)] fresh_message_def assms(2) [symmetric] fresh_at_def
    by (auto split: option.split)
  then show ?thesis by (metis not_None_eq)
qed

section \<open>Invariants\<close>

text \<open>
  Nothing a feed hands on is repeated or reordered, and nothing is lost while the aggregator
  lives; the aggregator's state is that of a run of its own loop over the events it took.
\<close>

definition from_feed :: "venue \<Rightarrow> message list \<Rightarrow> message list" where
  "from_feed v ms = filter (\<lambda>m. fst m = v) ms"

lemma from_feed_append [simp]: "from_feed v (xs @ ys) = from_feed v xs @ from_feed v ys"
  by (simp add: from_feed_def)

lemma from_feed_Cons [simp]:
  "from_feed v (m # ms) = (if fst m = v then m # from_feed v ms else from_feed v ms)"
  "from_feed v [] = []"
  by (simp_all add: from_feed_def)

definition conserves :: "('c \<Rightarrow> message list) \<Rightarrow> ('h, 'c, 'e) system \<Rightarrow> ('h, 'c, 'e) system \<Rightarrow> bool" where
  "conserves queued s0 s \<longleftrightarrow> (\<forall>v. list_all (feed_book v) (forwards (sy_feed s v)) \<and>
     (\<exists>lost. from_feed v (received (sy_events s) @ queued (sy_channel s)) @ lost @ forwards (sy_feed s v)
          = forwards (sy_feed s0 v) \<and> (sy_open s \<longrightarrow> lost = [])))"

definition gave_up :: "instant \<Rightarrow> event list \<Rightarrow> bool" where
  "gave_up t0 es \<longleftrightarrow> received es = [] \<and> (\<exists>pre now. es = pre @ [Grace_Tick now] \<and> GRACE < duration_since now t0)"

definition follows_run :: "'h histogram_ops \<Rightarrow> instant \<Rightarrow> ('h, 'c, 'e) system \<Rightarrow> bool" where
  "follows_run ops t0 s \<longleftrightarrow> bt_sorted (ag_venues (sy_aggregator s)) \<and> agg_reachable ops (sy_aggregator s)
     \<and> (\<forall>w. map_option (\<lambda>st. (vs_book st, vs_last_update st)) (bt_get (ag_venues (sy_aggregator s)) w)
          = last_message w (sy_events s))
     \<and> (if sy_open s
        then \<forall>es. run ops t0 (sy_events s @ es) =
          bind_outcome (run_loop ops t0 (sy_aggregator s) (sy_last_count s) es) (\<lambda>(ag, out, ex).
            Done (ag, sy_emitted s @ out, ex))
        else run ops t0 (sy_events s) = Done (sy_aggregator s, sy_emitted s, Some No_Data) \<and> gave_up t0 (sy_events s))"

text \<open>Where \<open>main\<close>'s result can come from.\<close>

definition joins_well :: "('h, 'c, 'e) system \<Rightarrow> bool" where
  "joins_well s \<longleftrightarrow> (\<forall>j\<in>set (sy_ended s). j = Ended Aggregator \<or> sy_server s = Some j)
     \<and> (sy_open s \<longleftrightarrow> Ended Aggregator \<notin> set (sy_ended s))
     \<and> (\<forall>j. sy_server s = Some j \<longrightarrow> server_outcome j \<and> j \<in> set (sy_ended s))
     \<and> (\<forall>r. sy_result s = Some r \<longrightarrow> (\<exists>j\<in>set (sy_ended s). r = main_result j))"

text \<open>What is left to do: the feeds' actions, each of which may put a message into the channel.\<close>

definition work :: "('c \<Rightarrow> message list) \<Rightarrow> ('h, 'c, 'e) system \<Rightarrow> nat" where
  "work queued s = 2 * (length (sy_feed s Binance) + length (sy_feed s Bitstamp) + length (sy_feed s Kraken))
     + length (queued (sy_channel s))"

definition alive :: "('h, 'c, 'e) system \<Rightarrow> bool" where
  "alive s \<longleftrightarrow> sy_open s \<and> sy_result s = None"

lemma work_feed:
  "sy_feed s v = a # todo \<Longrightarrow>
     work queued (s\<lparr>sy_feed := (sy_feed s)(v := todo)\<rparr>) + 2 = work queued s"
  by (cases v) (simp_all add: work_def)

lemma work_zero: "work queued s = 0 \<longleftrightarrow> queued (sy_channel s) = [] \<and> (\<forall>v. sy_feed s v = [])"
proof -
  have "(\<forall>v. sy_feed s v = []) \<longleftrightarrow> sy_feed s Binance = [] \<and> sy_feed s Bitstamp = [] \<and> sy_feed s Kraken = []"
    by (metis venue.exhaust)
  then show ?thesis by (auto simp: work_def)
qed

context bounded_channel
begin

lemma started_invariants:
  assumes "started ops ch s"
  shows "conserves queued s s" "follows_run ops t0 s" "joins_well s" "bound (sy_channel s) = CHANNEL_CAPACITY"
    "length (queued (sy_channel s)) \<le> CHANNEL_CAPACITY"
proof -
  have "bt_sorted (ag_venues (aggregator_new ops))" "\<And>w. bt_get (ag_venues (aggregator_new ops)) w = None"
    by (simp_all add: aggregator_new_def bt.invar_empty bt.get_empty)
  then show "follows_run ops t0 s"
    using assms by (simp add: follows_run_def started_def agg_new run_def)
qed (use assms in \<open>simp_all add: started_def conserves_def joins_well_def new_queued new_bound\<close>)

lemma conserves_step:
  assumes "sys_step ops ch t0 s s'" "conserves queued s0 s"
  shows "conserves queued s0 s'"
  using assms(1)
proof (cases rule: sys_step.cases)
  case (feed_acts v a todo)
  then have "forwards todo = forwards (sy_feed s v)" by (cases a) auto
  with assms(2) feed_acts(1) show ?thesis by (simp add: conserves_def)
next
  case (feed_sends v w b todo c)
  have "w = v" using assms(2) feed_sends(3) by (auto simp: conserves_def feed_book_def dest!: spec [of _ v])
  have "forwards (sy_feed s v) = (v, b) # forwards todo" by (simp add: feed_sends(3) \<open>w = v\<close>)
  with assms(2) feed_sends(1,4) send_queued [OF feed_sends(5)] \<open>w = v\<close> show ?thesis
    unfolding conserves_def by (auto dest!: spec [of _ v])
next
  case (feed_send_fails v w b todo)
  show ?thesis unfolding conserves_def
  proof
    fix u
    obtain lost where "list_all (feed_book u) (forwards (sy_feed s u))"
      "from_feed u (received (sy_events s) @ queued (sy_channel s)) @ lost @ forwards (sy_feed s u)
        = forwards (sy_feed s0 u)" using assms(2) unfolding conserves_def by blast
    with feed_send_fails show "list_all (feed_book u) (forwards (sy_feed s' u)) \<and>
       (\<exists>lost. from_feed u (received (sy_events s') @ queued (sy_channel s')) @ lost @ forwards (sy_feed s' u)
          = forwards (sy_feed s0 u) \<and> (sy_open s' \<longrightarrow> lost = []))"
      by (auto intro!: exI [of _ "if u = v then lost @ [(w, b)] else lost"])
  qed
next
  case (agg_receives v b c t ag sent)
  with assms(2) recv_queued [OF agg_receives(4)] show ?thesis by (auto simp: conserves_def)
next
  case (agg_panics v b c t)
  with assms(2) show ?thesis by (auto simp: conserves_def intro: exI [of _ "[]"])
next
  case (agg_gives_up now)
  with assms(2) show ?thesis by (auto simp: conserves_def intro: exI [of _ "[]"])
qed (use assms(2) in \<open>simp_all add: conserves_def\<close>)

lemma follows_run_step:
  assumes "sys_step ops ch t0 s s'" "follows_run ops t0 s"
  shows "follows_run ops t0 s'"
  using assms(1)
proof (cases rule: sys_step.cases)
  case (agg_receives v b c t ag sent)
  obtain now t1 t2 where t: "t = (now, t1, t2)" by (cases t)
  have sorted: "bt_sorted (ag_venues (sy_aggregator s))" using assms(2) by (simp add: follows_run_def)
  note step = agg_receives(5) [unfolded t]
  note venues = record_and_publish_venues(1) [OF sorted step]
  have "agg_reachable ops ag" using assms(2) agg_receives(5) by (auto simp: follows_run_def intro: agg_message)
  moreover have "map_option (\<lambda>st. (vs_book st, vs_last_update st)) (bt_get (ag_venues ag) w)
      = last_message w (sy_events s @ [Message v b t])" for w
    using assms(2) by (auto simp: follows_run_def venues bt.get_insert t)
  moreover have "run ops t0 (sy_events s @ Message v b t # es) =
      bind_outcome (run_loop ops t0 ag (sy_last_count s) es) (\<lambda>(ag, out, ex).
        Done (ag, (sy_emitted s @ emit sent) @ out, ex))" for es
  proof -
    have "run ops t0 (sy_events s @ Message v b t # es) =
      bind_outcome (run_loop ops t0 (sy_aggregator s) (sy_last_count s) (Message v b t # es)) (\<lambda>(ag, out, ex).
        Done (ag, sy_emitted s @ out, ex))" using assms(2) agg_receives(3) by (simp add: follows_run_def)
    then show ?thesis
      by (cases "run_loop ops t0 ag (sy_last_count s) es")
        (auto simp: agg_receives(5) emit_def split: option.split)
  qed
  ultimately show ?thesis
    using sorted agg_receives(1,3) by (simp add: follows_run_def venues bt_sorted_insert)
next
  case (agg_panics v b c t)
  have "bt_sorted (ag_venues (sy_aggregator s))" using assms(2) by (simp add: follows_run_def)
  then show ?thesis
    by (rule record_and_publish_done [of _ ops v b t]) (use agg_panics(5) in simp)
next
  case (agg_waits now)
  with assms(2) show ?thesis by (simp add: follows_run_def)
next
  case (agg_gives_up now)
  with assms(2) have "run ops t0 (sy_events s @ [Grace_Tick now]) =
      Done (sy_aggregator s, sy_emitted s, Some No_Data)" by (simp add: follows_run_def)
  moreover have "last_message w (sy_events s) = None" for w
  proof -
    have none: "bt_get (ag_venues (sy_aggregator s)) w = None"
      using agg_gives_up(4) by (simp add: past_grace_def bt_is_empty_def bt_get_def)
    have "\<forall>w. map_option (\<lambda>st. (vs_book st, vs_last_update st)) (bt_get (ag_venues (sy_aggregator s)) w)
        = last_message w (sy_events s)" using assms(2) unfolding follows_run_def by blast
    from this [rule_format, of w] show ?thesis by (simp add: none)
  qed
  then have "received (sy_events s) = []" by (rule no_last_message)
  then have "gave_up t0 (sy_events s @ [Grace_Tick now])"
    using agg_gives_up(4) by (simp add: gave_up_def past_grace_def)
  ultimately show ?thesis using assms(2) agg_gives_up by (simp add: follows_run_def)
next
  case (agg_reports ag r)
  then have ag: "ag = fst (log_report ops (sy_aggregator s) (sy_last_count s) REPORT_INTERVAL)" by simp
  have "agg_reachable ops ag" unfolding ag using assms(2) by (auto simp: follows_run_def intro: agg_report)
  moreover have "run ops t0 (sy_events s @ Report_Tick # es) =
      bind_outcome (run_loop ops t0 ag (ag_update_count ag) es) (\<lambda>(ag, out, ex).
        Done (ag, (sy_emitted s @ [Reported r]) @ out, ex))" for es
  proof -
    have "run ops t0 (sy_events s @ Report_Tick # es) =
      bind_outcome (run_loop ops t0 (sy_aggregator s) (sy_last_count s) (Report_Tick # es)) (\<lambda>(ag, out, ex).
        Done (ag, sy_emitted s @ out, ex))" using assms(2) agg_reports(3) by (simp add: follows_run_def)
    then show ?thesis
      by (cases "run_loop ops t0 ag (ag_update_count ag) es") (auto simp: agg_reports(4))
  qed
  moreover have "ag_venues ag = ag_venues (sy_aggregator s)" by (simp add: ag)
  ultimately show ?thesis
    using assms(2) agg_reports(1,3) by (simp add: follows_run_def)
qed (use assms(2) in \<open>simp_all add: follows_run_def\<close>)

lemma joins_well_step:
  assumes "sys_step ops ch t0 s s'" "joins_well s" "follows_run ops t0 s"
  shows "joins_well s'"
  using assms(1)
proof (cases rule: sys_step.cases)
  case (agg_panics v b c t)
  have "bt_sorted (ag_venues (sy_aggregator s))" using assms(3) by (simp add: follows_run_def)
  then show ?thesis
    by (rule record_and_publish_done [of _ ops v b t]) (use agg_panics(5) in simp)
next
  case (server_ends j)
  then have "j \<noteq> Ended Aggregator" by (cases j) auto
  with server_ends assms(2) show ?thesis by (auto simp: joins_well_def)
qed (use assms(2) in \<open>auto simp: joins_well_def\<close>)

lemma bound_step:
  assumes "sys_step ops ch t0 s s'" "length (queued (sy_channel s)) \<le> bound (sy_channel s)"
  shows "bound (sy_channel s') = bound (sy_channel s) \<and> length (queued (sy_channel s')) \<le> bound (sy_channel s')"
  using assms
  by (cases rule: sys_step.cases) (auto simp: send_bound recv_bound dest: send_within recv_queued)

lemma steps_invariants:
  assumes "sys_steps ops ch t0 s0 s" "started ops ch s0"
  shows "conserves queued s0 s \<and> follows_run ops t0 s \<and> joins_well s
    \<and> bound (sy_channel s) = CHANNEL_CAPACITY \<and> length (queued (sy_channel s)) \<le> CHANNEL_CAPACITY"
  using assms(1)
proof (induction rule: rtranclp_induct)
  case base
  show ?case using started_invariants [OF assms(2)] by simp
next
  case (step s s')
  with conserves_step [OF step.hyps(2)] follows_run_step [OF step.hyps(2)] joins_well_step [OF step.hyps(2)]
    bound_step [OF step.hyps(2)]
  show ?case by auto
qed

lemma steps_run:
  assumes "sys_steps ops ch t0 s0 s" "started ops ch s0"
  shows "run ops t0 (sy_events s) =
    Done (sy_aggregator s, sy_emitted s, if sy_open s then None else Some No_Data)"
  using steps_invariants [OF assms] by (auto simp: follows_run_def dest!: spec [of _ "[] :: event list"])

lemma one_step:
  assumes "alive s" "follows_run ops t0 s" "bound (sy_channel s) > 0" "work queued s \<noteq> 0"
  shows "\<exists>s'. sys_step ops ch t0 s s' \<and> alive s' \<and> work queued s' < work queued s"
proof (cases "queued (sy_channel s) = []")
  case False
  then obtain v b c where recv: "ch_recv ch (sy_channel s) = Some ((v, b), c)" using recv_some by fastforce
  have "bt_sorted (ag_venues (sy_aggregator s))" using assms(2) by (simp add: follows_run_def)
  then obtain ag sent where "record_and_publish ops (sy_aggregator s) v b (0, 0, 0) = Done (ag, sent)"
    by (rule record_and_publish_done)
  from sys_step.agg_receives [OF _ _ recv this, where started_at = t0] recv_queued [OF recv] assms(1) show ?thesis
    by (fastforce simp: alive_def work_def)
next
  case True
  then obtain v a todo where todo: "sy_feed s v = a # todo"
    using assms(4) by (auto simp: work_zero neq_Nil_conv)
  have idle: "sy_result s = None" "sy_open s" using assms(1) by (simp_all add: alive_def)
  show ?thesis
  proof (cases "forwards [a] = []")
    case True
    let ?s = "s\<lparr>sy_feed := (sy_feed s)(v := todo)\<rparr>"
    have "sys_step ops ch t0 s ?s" using idle(1) todo True by (rule sys_step.feed_acts)
    with idle work_feed [OF todo, of queued] show ?thesis
      by (intro exI [of _ ?s]) (simp add: alive_def)
  next
    case False
    then obtain w b where a: "a = Forward w b" by (cases a) auto
    obtain c where c: "ch_send ch (w, b) (sy_channel s) = Some c"
      using send_room [of "sy_channel s" "(w, b)"] True assms(3) by auto
    let ?s = "s\<lparr>sy_feed := (sy_feed s)(v := todo), sy_channel := c\<rparr>"
    have "sys_step ops ch t0 s ?s" using idle(1) todo [unfolded a] idle(2) c by (rule sys_step.feed_sends)
    moreover have "work queued ?s < work queued s"
      using work_feed [OF todo, of queued] send_queued [OF c] True by (simp add: work_def)
    ultimately show ?thesis using idle by (intro exI [of _ ?s]) (simp add: alive_def)
  qed
qed

lemma drains:
  assumes "alive s" "follows_run ops t0 s" "bound (sy_channel s) = CHANNEL_CAPACITY"
    "length (queued (sy_channel s)) \<le> CHANNEL_CAPACITY"
  shows "\<exists>s'. sys_steps ops ch t0 s s' \<and> alive s' \<and> work queued s' = 0"
  using assms
proof (induction "work queued s" arbitrary: s rule: less_induct)
  case less
  show ?case
  proof (cases "work queued s = 0")
    case False
    then obtain s1 where s1: "sys_step ops ch t0 s s1" "alive s1" "work queued s1 < work queued s"
      using one_step [OF less.prems(1,2)] less.prems(3) by (auto simp: CHANNEL_CAPACITY_def)
    from less.hyps [OF s1(3,2) follows_run_step [OF s1(1) less.prems(2)]] bound_step [OF s1(1)] less.prems(3,4)
    obtain s' where "sys_steps ops ch t0 s1 s'" "alive s'" "work queued s' = 0" by auto
    with s1(1) show ?thesis by (blast intro: converse_rtranclp_into_rtranclp)
  qed (use less.prems in blast)
qed

end

text \<open>Where \<open>main\<close>'s result comes from.\<close>

definition process_end :: "instant \<Rightarrow> ('h, 'c, 'e) system \<Rightarrow> (string \<times> 'e option) + unit \<Rightarrow> bool" where
  "process_end t0 s r \<longleftrightarrow>
     (\<exists>e. sy_server s = Some (Failed Server e) \<and> r = Inl (''server task failed'', Some e))
   \<or> (sy_server s = Some (Ended Server) \<and> r = Inr ())
   \<or> (sy_server s = Some (Join_Error True) \<and> r = Inl (''task panicked'', None))
   \<or> (sy_server s = Some (Join_Error False) \<and> r = Inl (''task was cancelled'', None))
   \<or> (r = Inr () \<and> received (sy_events s) = []
      \<and> (\<exists>pre now. sy_events s = pre @ [Grace_Tick now] \<and> GRACE < duration_since now t0))"

lemma server_end: "server_outcome j \<Longrightarrow> sy_server s = Some j \<Longrightarrow> process_end t0 s (main_result j)"
  by (cases j) (auto simp: process_end_def)

lemma result_from:
  assumes "sy_result s = Some r" "joins_well s" "follows_run ops t0 s"
  shows "process_end t0 s r"
proof -
  obtain j where j: "j \<in> set (sy_ended s)" "r = main_result j" using assms(1,2) by (auto simp: joins_well_def)
  show ?thesis
  proof (cases "j = Ended Aggregator")
    case True
    with j assms(2) have "\<not> sy_open s" by (auto simp: joins_well_def)
    with True j(2) assms(3) show ?thesis by (simp add: follows_run_def gave_up_def process_end_def)
  next
    case False
    with j assms(2) have "sy_server s = Some j" "server_outcome j" by (auto simp: joins_well_def)
    with j(2) server_end show ?thesis by blast
  qed
qed

section \<open>Published summaries\<close>

text \<open>
  What is known of a published summary: it is the merge of the books that are fresh at the last
  of the events, each parsed and handed on by its venue's own feed.
\<close>

definition merged_from_feeds :: "feed_env \<Rightarrow> string \<Rightarrow> event list \<Rightarrow> summary \<Rightarrow> bool" where
  "merged_from_feeds fe pair es m \<longleftrightarrow> (\<exists>pre v b now t1 t2 books. es = pre @ [Message v b (now, t1, t2)]
    \<and> merge books = Some m \<and> (\<forall>w. bt_get books w = fresh_message now es w)
    \<and> (\<forall>w bk. bt_get books w = Some bk \<longrightarrow> (\<exists>out. feed_task fe pair w = Done out
         \<and> (w, bk) \<in> set (forwards out) \<and> (w = Kraken \<longrightarrow> kraken_shaped bk))))"

lemma spawn_tasks_feed:
  "spawn_tasks ops ch fe config = Done s \<Longrightarrow> feed_task fe (cf_pair config) v = Done (sy_feed s v)"
  by (cases v) (auto simp: spawn_tasks_def Let_def elim!: bind_outcome_DoneE)

lemma published_merges:
  assumes "bounded_channel ch queued bound" "spawn_tasks ops ch fe config = Done s0"
    "sys_steps ops ch t0 s0 s" "sys_step ops ch t0 s s'" "sy_emitted s' = sy_emitted s @ [Published m]"
  shows "\<exists>v b now t1 t2 books. sy_events s' = sy_events s @ [Message v b (now, t1, t2)]
    \<and> merge books = Some m \<and> (\<forall>w. bt_get books w = fresh_message now (sy_events s') w)
    \<and> (\<forall>w bk. bt_get books w = Some bk \<longrightarrow> (\<exists>out. feed_task fe (cf_pair config) w = Done out
         \<and> (w, bk) \<in> set (forwards out) \<and> (w = Kraken \<longrightarrow> kraken_shaped bk)))"
proof -
  note inv = bounded_channel.steps_invariants [OF assms(1) _ spawn_tasks_started [OF assms(2)]]
  have srt: "bt_sorted (ag_venues (sy_aggregator s))" using inv [OF assms(3)] by (simp add: follows_run_def)
  have "sys_steps ops ch t0 s0 s'" using assms(3,4) by (rule rtranclp.rtrancl_into_rtrancl)
  note inv' = inv [OF this]
  have srt': "bt_sorted (ag_venues (sy_aggregator s'))" using inv' by (simp add: follows_run_def)
  obtain v b now t1 t2 where step: "record_and_publish ops (sy_aggregator s) v b (now, t1, t2) = Done (sy_aggregator s', Some m)"
    "sy_events s' = sy_events s @ [Message v b (now, t1, t2)]"
    using assms(4,5) by (cases rule: sys_step.cases) (auto simp: emit_def split: option.splits)
  let ?books = "fresh_books (ag_venues (sy_aggregator s')) now"
  have venues: "ag_venues (sy_aggregator s') = ag_venues (with_message ops (sy_aggregator s) v b now)"
    using record_and_publish_venues(1) [OF srt step(1)] by simp
  have "merge ?books = Some m"
    using step(1) venues by (cases rule: record_and_publish_cases [OF srt, of ops v b now t1 t2]) auto
  moreover have fresh: "bt_get ?books w = fresh_message now (sy_events s') w" for w
    using inv' by (intro fresh_books_history srt') (simp add: follows_run_def)
  moreover have "\<exists>out. feed_task fe (cf_pair config) w = Done out
      \<and> (w, bk) \<in> set (forwards out) \<and> (w = Kraken \<longrightarrow> kraken_shaped bk)"
    if "bt_get ?books w = Some bk" for w bk
  proof -
    have "(w, bk) \<in> set (received (sy_events s'))"
      using that fresh by (auto simp: fresh_message_def intro: last_message_received split: option.splits if_splits)
    then have "(w, bk) \<in> set (from_feed w (received (sy_events s')))" by (simp add: from_feed_def)
    moreover obtain rest where "from_feed w (received (sy_events s')) @ rest = forwards (sy_feed s0 w)"
      using inv' by (auto simp: conserves_def)
    ultimately have mem: "(w, bk) \<in> set (forwards (sy_feed s0 w))" by (metis UnCI set_append)
    note feed = spawn_tasks_feed [OF assms(2), of w]
    from feed_task_books [OF feed] mem have "feed_book w (w, bk)" by (simp add: list_all_iff)
    with feed mem show ?thesis by (auto simp: feed_book_def)
  qed
  ultimately show ?thesis using step(2) by blast
qed

lemma sys_step_history:
  "sys_step ops ch t0 s s' \<Longrightarrow> prefix (sy_events s) (sy_events s')
     \<and> (sy_emitted s' = sy_emitted s \<or> (\<exists>e. sy_emitted s' = sy_emitted s @ [e]))"
  by (cases rule: sys_step.cases) (auto simp: emit_def split: option.splits)

lemma published_of_append [simp]: "published_of (xs @ ys) = published_of xs @ published_of ys"
  by (induction xs rule: published_of.induct) simp_all

lemma published_of_one: "m \<in> set (published_of [e]) \<longleftrightarrow> e = Published m"
  by (cases e) auto

text \<open>Every summary emitted so far was published by one of the steps.\<close>

lemma emitted_merges:
  assumes "bounded_channel ch queued bound" "spawn_tasks ops ch fe config = Done s0"
    "sys_steps ops ch t0 s0 s" "m \<in> set (published_of (sy_emitted s))"
  shows "\<exists>es. prefix es (sy_events s) \<and> merged_from_feeds fe (cf_pair config) es m"
  using assms(3,4)
proof (induction rule: rtranclp_induct)
  case base
  then show ?case using spawn_tasks_started [OF assms(2)] by (simp add: started_def)
next
  case (step s s')
  from sys_step_history [OF step.hyps(2)] have history: "prefix (sy_events s) (sy_events s')"
    "sy_emitted s' = sy_emitted s \<or> (\<exists>e. sy_emitted s' = sy_emitted s @ [e])" by simp_all
  show ?case
  proof (cases "m \<in> set (published_of (sy_emitted s))")
    case True
    with step.IH history(1) show ?thesis by (blast intro: prefix_order.trans)
  next
    case False
    with history(2) step.prems have new: "sy_emitted s' = sy_emitted s @ [Published m]"
      by (auto simp: published_of_one)
    from published_merges [OF assms(1,2) step.hyps new] show ?thesis
      unfolding merged_from_feeds_def by (metis prefix_order.refl)
  qed
qed

section \<open>Properties\<close>

text \<open>A process whose Binance feed has one book to hand on, used to witness the properties.\<close>

definition sample_feeds :: feed_env where
  "sample_feeds = \<lparr>
     fe_binance = (\<lambda>_. Some \<lparr>d20_last_update_id = 7, d20_bids = [(''10'', ''1'')], d20_asks = [(''11'', ''1'')]\<rparr>),
     fe_bitstamp = (\<lambda>_. None),
     fe_kraken = \<lparr>ke_peek = \<lambda>_. None, ke_message = \<lambda>_. None, ke_crc32 = \<lambda>_. 0\<rparr>,
     fe_var = (\<lambda>_. None), fe_started_at = (\<lambda>_. 0),
     fe_cycles = (\<lambda>v. if v = Binance then [\<lparr>
       cy_connection = \<lparr>cn_proxy = \<lparr>io_connect = False, io_write = False, io_reads = []\<rparr>,
         cn_handshake = True, cn_connected_at = 1, cn_subscribed = True,
         cn_events = [Received (Text ''x'') (3, 4)]\<rparr>,
       cy_now = 0, cy_multiplier = f64_one, cy_clock = []\<rparr>] else [])\<rparr>"

definition sample_system :: "(u64 list, nat \<times> message list, unit) system" where
  "sample_system = \<lparr>
     sy_feed = (\<lambda>v. case v of Binance \<Rightarrow> [Attempt, Forward Binance sample_book] | Bitstamp \<Rightarrow> [] | Kraken \<Rightarrow> []),
     sy_channel = (32, []), sy_open = True, sy_aggregator = aggregator_new sample_ops, sy_last_count = 0,
     sy_server = None, sy_ended = [], sy_result = None, sy_events = [], sy_emitted = []\<rparr>"

lemma sample_spawn: "spawn_tasks sample_ops list_channel sample_feeds config_default = Done sample_system"
proof -
  have "binance_parse (fe_binance sample_feeds) ''x'' (3, 4) = Some sample_book" by code_simp
  then have "feed_task sample_feeds ''ethbtc'' Binance = Done [Attempt, Forward Binance sample_book]"
    by (simp add: feed_task_def run_feed_def run_once_def run_once_inner_def dial_def proxy_addr_def
        sample_feeds_def binance_def binance_subscribe_message_def Let_def)
  moreover have "feed_task sample_feeds ''ethbtc'' Bitstamp = Done []" "feed_task sample_feeds ''ethbtc'' Kraken = Done []"
    by (simp_all add: feed_task_def run_feed_def sample_feeds_def split: prod.split)
  moreover have "ch_new list_channel CHANNEL_CAPACITY = (32, [])"
    by (simp add: list_channel_def CHANNEL_CAPACITY_def)
  ultimately show ?thesis
    by (simp add: spawn_tasks_def sample_system_def config_default_def)
qed

lemma sample_jitter: "list_all jitter_range (fe_cycles sample_feeds v)"
proof -
  have "jitter_range (hd (fe_cycles sample_feeds Binance))" by code_simp
  then show ?thesis by (simp add: sample_feeds_def)
qed

lemma sample_main:
  "main_process cells False \<lparr>cli_pair = None, cli_port = None\<rparr> sample_ops list_channel sample_feeds (None, False)
     = Done (Inr (config_default, V4 [127, 0, 0, 1] 50051, sample_system))"
proof -
  let ?start = "main_start cells False \<lparr>cli_pair = None, cli_port = None\<rparr> (\<lambda>_. None) (None, False)"
  have "case ?start of Done (g, Inr ca) \<Rightarrow> ca = (config_default, V4 [127, 0, 0, 1] 50051) | _ \<Rightarrow> False" by code_simp
  then obtain g where "?start = Done (g, Inr (config_default, V4 [127, 0, 0, 1] 50051))"
    by (auto split: outcome.splits prod.splits sum.splits)
  moreover have "fe_var sample_feeds = (\<lambda>_. None)" by (simp add: sample_feeds_def)
  ultimately show ?thesis using sample_spawn by (simp add: main_process_def)
qed

text \<open>The book is handed on, and then taken.\<close>

definition sample_handed :: "(u64 list, nat \<times> message list, unit) system" where
  "sample_handed = sample_system\<lparr>
     sy_feed := (sy_feed sample_system)(Binance := [Forward Binance sample_book], Binance := []),
     sy_channel := (32, [(Binance, sample_book)])\<rparr>"

lemma sample_hands_on: "sys_steps sample_ops list_channel 0 sample_system sample_handed"
proof -
  let ?s = "sample_system\<lparr>sy_feed := (sy_feed sample_system)(Binance := [Forward Binance sample_book])\<rparr>"
  have "sys_step sample_ops list_channel 0 sample_system ?s"
    by (rule feed_acts [where a = Attempt]) (simp_all add: sample_system_def)
  moreover have "sys_step sample_ops list_channel 0 ?s
      (?s\<lparr>sy_feed := (sy_feed ?s)(Binance := []), sy_channel := (32, [(Binance, sample_book)])\<rparr>)"
    by (rule feed_sends [where w = Binance and b = sample_book])
      (simp_all add: sample_system_def list_channel_def)
  ultimately show ?thesis by (simp add: sample_handed_def)
qed

lemma sample_takes:
  "\<exists>s m. sys_step sample_ops list_channel 0 sample_handed s
     \<and> sy_events s = [Message Binance sample_book (5, 6, 7)] \<and> sy_emitted s = [Published m]"
proof -
  let ?res = "record_and_publish sample_ops (aggregator_new sample_ops) Binance sample_book (5, 6, 7)"
  have "case ?res of Panic \<Rightarrow> False | Done (ag, sent) \<Rightarrow> sent \<noteq> None" by code_simp
  then obtain ag m where res: "?res = Done (ag, Some m)" by (auto split: outcome.splits prod.splits)
  let ?s = "sample_handed\<lparr>sy_channel := (32, []), sy_aggregator := ag,
    sy_events := sy_events sample_handed @ [Message Binance sample_book (5, 6, 7)],
    sy_emitted := sy_emitted sample_handed @ emit (Some m)\<rparr>"
  have "sys_step sample_ops list_channel 0 sample_handed ?s"
    by (rule agg_receives) (simp_all add: sample_handed_def sample_system_def list_channel_def res)
  moreover have "sy_events ?s = [Message Binance sample_book (5, 6, 7)]" "sy_emitted ?s = [Published m]"
    by (simp_all add: sample_handed_def sample_system_def emit_def)
  ultimately show ?thesis by blast
qed

text \<open>
  C3. Between the feeds and the aggregator nothing is repeated, reordered or attributed to
  another venue, however the tasks interleave: what it took from one venue followed by what
  waits in the channel is a prefix of what that venue's feed hands on, short of it only by what
  the feed has still to do while the aggregator lives; and the channel never holds more than
  its 32 messages.
\<close>

theorem channel_conserves:
  assumes "bounded_channel ch queued bound" "spawn_tasks ops ch fe config = Done s0"
    "sys_steps ops ch t0 s0 s"
  shows "length (queued (sy_channel s)) \<le> 32
    \<and> (\<exists>lost. from_feed v (received (sy_events s) @ queued (sy_channel s)) @ lost @ forwards (sy_feed s v)
          = forwards (sy_feed s0 v) \<and> (sy_open s \<longrightarrow> lost = []))"
  using bounded_channel.steps_invariants [OF assms(1,3) spawn_tasks_started [OF assms(2)]]
  by (simp add: conserves_def CHANNEL_CAPACITY_def)

theorem channel_conserves_witness:
  "sys_steps sample_ops list_channel 0 sample_system sample_handed
     \<and> snd (sy_channel sample_handed) = [(Binance, sample_book)]
     \<and> length (snd (sy_channel sample_handed)) \<le> 32"
  using channel_conserves [OF list_channel.bounded_channel_axioms sample_spawn sample_hands_on] sample_hands_on
  by (simp add: sample_handed_def)

text \<open>
  C4. The channel cannot deadlock the process: from whatever point it has reached with the
  aggregator alive it can go on to where every feed has done all it has to do and the
  aggregator has taken every book handed on, each venue's in order.
\<close>

theorem all_books_can_arrive:
  assumes "bounded_channel ch queued bound" "spawn_tasks ops ch fe config = Done s0"
    "sys_steps ops ch t0 s0 s" "sy_open s" "sy_result s = None"
  shows "\<exists>s'. sys_steps ops ch t0 s s' \<and> sy_open s'
    \<and> (\<forall>v. sy_feed s' v = [] \<and> from_feed v (received (sy_events s')) = forwards (sy_feed s0 v))"
proof -
  note inv = bounded_channel.steps_invariants [OF assms(1) _ spawn_tasks_started [OF assms(2)]]
  obtain s' where s': "sys_steps ops ch t0 s s'" "alive s'" "work queued s' = 0"
    using bounded_channel.drains [OF assms(1)] inv [OF assms(3)] assms(4,5) by (metis alive_def)
  then have "sys_steps ops ch t0 s0 s'" using assms(3) by (meson rtranclp_trans)
  from inv [OF this] s' show ?thesis by (auto simp: conserves_def work_zero alive_def)
qed

theorem all_books_can_arrive_witness:
  "\<exists>s. sys_steps sample_ops list_channel 0 sample_system s
     \<and> from_feed Binance (received (sy_events s)) = [(Binance, sample_book)]"
  using all_books_can_arrive [OF list_channel.bounded_channel_axioms sample_spawn rtranclp.rtrancl_refl]
  by (force simp: sample_system_def)

text \<open>
  C2. From the wire to the publication: a summary the process publishes is the merge of exactly
  the last books taken from the venues heard from within their staleness thresholds, each of
  which that venue's own feed parsed and handed on; Kraken's is sorted by price and at most
  ten deep.
\<close>

theorem published_end_to_end:
  assumes "bounded_channel ch queued bound" "spawn_tasks ops ch fe config = Done s0"
    "sys_steps ops ch t0 s0 s" "sys_step ops ch t0 s s'" "sy_emitted s' = sy_emitted s @ [Published m]"
  shows "\<exists>v b now t1 t2 books. sy_events s' = sy_events s @ [Message v b (now, t1, t2)]
    \<and> merge books = Some m \<and> (\<forall>w. bt_get books w = fresh_message now (sy_events s') w)
    \<and> (\<forall>w bk. bt_get books w = Some bk \<longrightarrow> (\<exists>out. feed_task fe (cf_pair config) w = Done out
         \<and> (w, bk) \<in> set (forwards out) \<and> (w = Kraken \<longrightarrow> kraken_shaped bk)))"
  using assms by (rule published_merges)

theorem published_end_to_end_witness:
  "\<exists>books m. merge books = Some m \<and> bt_get books Binance = Some sample_book \<and> bt_get books Kraken = None"
proof -
  obtain s m where s: "sys_step sample_ops list_channel 0 sample_handed s"
    "sy_events s = [Message Binance sample_book (5, 6, 7)]" "sy_emitted s = [Published m]"
    using sample_takes by blast
  then have "sy_emitted s = sy_emitted sample_handed @ [Published m]"
    by (simp add: sample_handed_def sample_system_def)
  from published_end_to_end [OF list_channel.bounded_channel_axioms sample_spawn sample_hands_on s(1) this]
  obtain v b now t1 t2 books where "sy_events s = sy_events sample_handed @ [Message v b (now, t1, t2)]"
    "merge books = Some m" "\<forall>w. bt_get books w = fresh_message now (sy_events s) w" by blast
  then show ?thesis
    by (auto simp: s(2) sample_handed_def sample_system_def fresh_message_def duration_since_def threshold_ns_def
        from_millis_def)
qed

text \<open>
  C8. How the process ends: starting never panics, and \<open>main\<close> then returns only for one of four
  reasons. The server's error is its error, under the context that names the server; a panicking
  or cancelled task is an error of its own; it ends without error when the server stops without
  one, or when the aggregator gave up, which it does only when sixty seconds after its start it
  has taken no book from any venue. No feed ends it.
\<close>

theorem process_ends:
  fixes ops :: "'h histogram_ops" and ch :: "(message, 'c) channel_ops"
  assumes "bounded_channel ch queued bound"
    "process_globals po subscriber provider" "subscriber g = None" "\<not> provider g"
    "\<And>v. list_all jitter_range (fe_cycles fe v)"
  shows "\<exists>started :: start_error + config \<times> socket_addr \<times> ('h, 'c, 'e) system. main_process po is_terminal cli ops ch fe g = Done started
    \<and> (\<forall>config addr s0 s r. started = Inr (config, addr, s0) \<and> sys_steps ops ch t0 s0 s \<and> sy_result s = Some r
        \<longrightarrow> process_end t0 s r)"
proof -
  obtain started :: "start_error + config \<times> socket_addr \<times> ('h, 'c, 'e) system" where main:
    "main_process po is_terminal cli ops ch fe g = Done started"
    using main_process_returns [OF assms(2-5)] by blast
  have "process_end t0 s r"
    if "started = Inr (config, addr, s0)" "sys_steps ops ch t0 s0 s" "sy_result s = Some r" for config addr s0 s r
  proof -
    have "spawn_tasks ops ch fe config = Done s0" using main_process_spawns [OF main [unfolded that(1)]] by simp
    then have "joins_well s" "follows_run ops t0 s"
      using bounded_channel.steps_invariants [OF assms(1) that(2) spawn_tasks_started] by simp_all
    with that(3) show ?thesis by (rule result_from)
  qed
  with main show ?thesis by blast
qed

theorem process_ends_witness:
  "\<exists>s. sys_steps sample_ops list_channel 0 sample_system s \<and> sy_server s = Some (Failed Server ())
     \<and> sy_result s = Some (Inl (''server task failed'', Some ()))"
proof -
  let ?j = "Failed Server ()"
  let ?s = "sample_system\<lparr>sy_server := Some ?j, sy_ended := ?j # sy_ended sample_system\<rparr>"
  let ?t = "?s\<lparr>sy_result := Some (main_result ?j)\<rparr>"
  have "sys_step sample_ops list_channel 0 sample_system ?s"
    by (rule server_ends) (simp_all add: sample_system_def)
  moreover have "sys_step sample_ops list_channel 0 ?s ?t"
    by (rule main_joins) (simp_all add: sample_system_def)
  ultimately have steps: "sys_steps sample_ops list_channel 0 sample_system ?t" by simp
  have fresh: "fst (None, False) = None" "\<not> snd (None, False)" by simp_all
  have "process_end 0 ?t (main_result ?j)"
    using process_ends [where 'e = unit, OF list_channel.bounded_channel_axioms cells.process_globals_axioms fresh sample_jitter,
      of False "\<lparr>cli_pair = None, cli_port = None\<rparr>" sample_ops 0] sample_main steps
    by auto
  moreover have "sy_server ?t = Some ?j" "sy_events ?t = []" by (simp_all add: sample_system_def)
  ultimately have "main_result ?j = Inl (''server task failed'', Some ())" by (simp add: process_end_def)
  with steps \<open>sy_server ?t = Some ?j\<close> show ?thesis by (intro exI [of _ ?t]) simp
qed

end
