(* ===== verification/History.thy ===== *)
theory History
  imports System
begin

text \<open>
  What the process publishes, read off the events its aggregator took and nothing else: the
  specification has no state, no map of venues and no remembered summary, and the process
  refines it.
\<close>

section \<open>The specification\<close>

text \<open>The books that the history says are fresh, in the order of the venues.\<close>

definition fresh_map :: "instant \<Rightarrow> event list \<Rightarrow> (venue, book) btree" where
  "fresh_map now es = List.map_filter (\<lambda>v. map_option (Pair v) (fresh_message now es v)) VENUES"

text \<open>
  The newest event comes first. A message publishes the merge of the books then fresh, if there
  is one and it differs from the last summary published; no other event publishes.
\<close>

fun publications :: "event list \<Rightarrow> summary list" where
  "publications [] = []"
| "publications (Message v b (now, ts) # past) =
     (let sent = publications past
      in case merge (fresh_map now (rev (Message v b (now, ts) # past))) of
           None \<Rightarrow> sent
         | Some m \<Rightarrow> if sent \<noteq> [] \<and> summary_eq (last sent) m then sent else sent @ [m])"
| "publications (e # past) = publications past"

section \<open>The process refines it\<close>

lemma fresh_map_get: "bt_get (fresh_map now es) w = fresh_message now es w" "bt_sorted (fresh_map now es)"
proof -
  have V: "VENUES = [Binance, Bitstamp, Kraken]" by (simp add: VENUES_def)
  show "bt_get (fresh_map now es) w = fresh_message now es w"
    by (cases w) (auto simp: fresh_map_def V bt_get_def List.map_filter_simps split: option.split)
  show "bt_sorted (fresh_map now es)"
    by (auto simp: fresh_map_def V bt_sorted_def List.map_filter_simps less_venue_def split: option.split)
qed

lemma fresh_books_map:
  assumes "bt_sorted venues"
    and "\<And>w. map_option (\<lambda>st. (vs_book st, vs_last_update st)) (bt_get venues w) = last_message w es"
  shows "fresh_books venues now = fresh_map now es"
proof -
  have "bt_get (fresh_books venues now) w = bt_get (fresh_map now es) w" for w
    using fresh_books_history [OF assms(1,2), of now w] by (simp add: fresh_map_get)
  then have "bt_iter (fresh_books venues now) = bt_iter (fresh_map now es)"
    by (intro bt.iter_cong fresh_venues_eq(2) [OF assms(1)] fresh_map_get(2))
  then show ?thesis by (simp add: bt_iter_def)
qed

text \<open>
  What was sent is what is prescribed, and the aggregator remembers the last of it and counts it.
\<close>

definition in_step :: "summary list \<Rightarrow> summary list \<Rightarrow> summary option \<Rightarrow> u64 \<Rightarrow> bool" where
  "in_step sent prescribed last_published n \<longleftrightarrow> sent = prescribed
     \<and> (case last_published of None \<Rightarrow> sent = []
        | Some l \<Rightarrow> sent \<noteq> [] \<and> same_summary (last sent) l)
     \<and> n = word_of_nat (length sent)"

definition history_ok :: "('h, 'c, 'e) system \<Rightarrow> bool" where
  "history_ok s \<longleftrightarrow> in_step (published_of (sy_emitted s)) (publications (rev (sy_events s)))
     (ag_last_published (sy_aggregator s)) (ag_update_count (sy_aggregator s))"

lemma same_summary_eq: "same_summary a l \<Longrightarrow> summary_eq l m \<longleftrightarrow> summary_eq a m"
  by (metis same_summary_def summary_eq_sym summary_eq_trans)

lemma history_ok_receives:
  assumes "history_ok s" "follows_run ops t0 s" "sy_open s"
    and step: "record_and_publish ops (sy_aggregator s) v b t = Done (ag, sent)"
  shows "history_ok (s\<lparr>sy_channel := c, sy_aggregator := ag, sy_events := sy_events s @ [Message v b t],
    sy_emitted := sy_emitted s @ emit sent\<rparr>)"
proof -
  obtain now t1 t2 where t: "t = (now, t1, t2)" by (cases t)
  have sorted: "bt_sorted (ag_venues (sy_aggregator s))"
    and hist: "\<And>w. map_option (\<lambda>st. (vs_book st, vs_last_update st)) (bt_get (ag_venues (sy_aggregator s)) w)
      = last_message w (sy_events s)" using assms(2) by (simp_all add: follows_run_def)
  let ?es = "sy_events s @ [Message v b (now, t1, t2)]"
  let ?venues = "ag_venues (with_message ops (sy_aggregator s) v b now)"
  have "bt_sorted ?venues" using sorted by (simp add: bt_sorted_insert)
  moreover have "map_option (\<lambda>st. (vs_book st, vs_last_update st)) (bt_get ?venues w) = last_message w ?es" for w
    using hist by (simp add: bt.get_insert)
  ultimately have fresh: "fresh_books ?venues now = fresh_map now ?es" by (rule fresh_books_map)
  define sum where "sum = published_of (sy_emitted s)"
  have last: "case ag_last_published (sy_aggregator s) of None \<Rightarrow> sum = [] | Some l \<Rightarrow> sum \<noteq> [] \<and> same_summary (last sum) l"
    and count: "ag_update_count (sy_aggregator s) = word_of_nat (length sum)"
    and sum: "sum = publications (rev (sy_events s))"
    using assms(1) unfolding history_ok_def in_step_def sum_def by blast+
  have pubs: "publications (rev ?es) = (case merge (fresh_books ?venues now) of None \<Rightarrow> sum
      | Some m \<Rightarrow> if sum \<noteq> [] \<and> summary_eq (last sum) m then sum else sum @ [m])"
    unfolding fresh by (simp add: Let_def flip: sum)
  show ?thesis
  proof (cases rule: record_and_publish_cases [OF sorted, of ops v b now t1 t2])
    case 1
    with step t have "ag = with_message ops (sy_aggregator s) v b now" "sent = None" by simp_all
    moreover have "publications (rev ?es) = sum" unfolding pubs 1(2) by simp
    ultimately show ?thesis
      using last count by (simp add: history_ok_def in_step_def emit_def t del: publications.simps flip: sum_def)
  next
    case (2 m prev)
    with step t have ag: "ag_last_published ag = Some m" "ag_update_count ag = ag_update_count (sy_aggregator s)" "sent = None"
      by auto
    have sum: "sum \<noteq> []" "same_summary (last sum) prev" using last 2(3) by simp_all
    have eq: "summary_eq (last sum) m" using same_summary_eq [OF sum(2)] 2(4) by simp
    have "same_summary (last sum) m" using sum(2) 2(4) by (rule same_summary_trans)
    moreover from eq have "publications (rev ?es) = sum" unfolding pubs 2(2) using sum(1) by simp
    ultimately show ?thesis using ag sum(1) count
      by (simp add: history_ok_def in_step_def emit_def t del: publications.simps flip: sum_def)
  next
    case (3 m mh th)
    with step t have ag: "ag_last_published ag = Some m" "ag_update_count ag = ag_update_count (sy_aggregator s) + 1"
      "sent = Some m" by auto
    have "\<not> (sum \<noteq> [] \<and> summary_eq (last sum) m)"
      using last 3(3) same_summary_eq by (auto split: option.splits)
    then have "publications (rev ?es) = sum @ [m]" unfolding pubs 3(2) by auto
    with ag count show ?thesis
      by (simp add: history_ok_def in_step_def emit_def t same_summary_def del: publications.simps flip: sum_def)
  qed
qed

lemma history_ok_step:
  assumes "sys_step ops ch t0 s s'" "history_ok s" "follows_run ops t0 s"
  shows "history_ok s'"
  using assms(1)
proof (cases rule: sys_step.cases)
  case (agg_receives v b c t ag sent)
  show ?thesis unfolding agg_receives(1) using assms(2,3) agg_receives(3,5) by (rule history_ok_receives)
next
  case (agg_reports ag r)
  have ag: "ag = fst (log_report ops (sy_aggregator s) (sy_last_count s) REPORT_INTERVAL)" using agg_reports(4) by simp
  have same: "published_of (sy_emitted s') = published_of (sy_emitted s)"
    "publications (rev (sy_events s')) = publications (rev (sy_events s))"
    "ag_last_published (sy_aggregator s') = ag_last_published (sy_aggregator s)"
    "ag_update_count (sy_aggregator s') = ag_update_count (sy_aggregator s)"
    using agg_reports(1) ag by simp_all
  show ?thesis using assms(2) unfolding history_ok_def same .
qed (use assms(2) in \<open>simp_all add: history_ok_def\<close>)

lemma history_ok_steps:
  assumes "bounded_channel ch queued bound" "sys_steps ops ch t0 s0 s" "started ops ch s0"
  shows "history_ok s"
  using assms(2)
proof (induction rule: rtranclp_induct)
  case base
  show ?case using assms(3) by (simp add: started_def history_ok_def in_step_def aggregator_new_def)
next
  case (step s s')
  then show ?case
    using bounded_channel.steps_invariants [OF assms(1) step.hyps(1) assms(3)] history_ok_step by blast
qed

section \<open>Properties\<close>

text \<open>
  C5. Whatever the interleaving, the summaries the process has published are those the history
  of its aggregator prescribes: after each message the merge of the books that are then fresh,
  where that differs from the last summary published; its update counter counts them, its map
  holds the last message of every venue, and it stops only when it has given up.
\<close>

theorem process_refines_history:
  assumes "bounded_channel ch queued bound" "spawn_tasks ops ch fe config = Done s0"
    "sys_steps ops ch t0 s0 s"
  shows "published_of (sy_emitted s) = publications (rev (sy_events s))
    \<and> ag_update_count (sy_aggregator s) = word_of_nat (length (publications (rev (sy_events s))))
    \<and> (\<forall>w. map_option (\<lambda>st. (vs_book st, vs_last_update st)) (bt_get (ag_venues (sy_aggregator s)) w)
          = last_message w (sy_events s))
    \<and> (\<not> sy_open s \<longrightarrow> gave_up t0 (sy_events s))"
proof -
  note start = spawn_tasks_started [OF assms(2)]
  have "history_ok s" using assms(1,3) start by (rule history_ok_steps)
  moreover have "follows_run ops t0 s"
    using bounded_channel.steps_invariants [OF assms(1,3) start] by simp
  ultimately show ?thesis
    by (simp add: history_ok_def in_step_def follows_run_def split: if_splits)
qed

theorem process_refines_history_witness:
  "\<exists>m. publications [Message Binance sample_book (5, 6, 7)] = [m]"
proof -
  obtain s m where s: "sys_step sample_ops list_channel 0 sample_handed s"
    "sy_events s = [Message Binance sample_book (5, 6, 7)]" "sy_emitted s = [Published m]"
    using sample_takes by blast
  from sample_hands_on s(1) have "sys_steps sample_ops list_channel 0 sample_system s"
    by (rule rtranclp.rtrancl_into_rtrancl)
  from process_refines_history [OF list_channel.bounded_channel_axioms sample_spawn this]
  have "published_of (sy_emitted s) = publications (rev (sy_events s))" by (rule conjunct1)
  then have "publications [Message Binance sample_book (5, 6, 7)] = [m]" by (simp add: s del: publications.simps)
  then show ?thesis by blast
qed

end
