(* ===== verification/Spread.thy ===== *)
theory Spread
  imports Merge Rust_Time
begin

text \<open>
  The spread that \<open>merge\<close> computes in floats. Between prices on the eight-decimal grid below
  \<open>2\<^sup>4\<^sup>9\<close> hundred-millionths (5.6 million units of the quote currency) the four operations lose
  less than half a tick between them, so rounding to the tick restores the exact difference.
\<close>

section \<open>One rounding\<close>

text \<open>Where the exact value is a whole number of units, or large, the error is relative.\<close>

lemma round_ratio_relative:
  assumes "0 < d" "round_ratio n d e < inf_bits"
    and "ratio n d e \<in> \<nat> \<or> 2 ^ 53 \<le> ratio n d e"
  shows "\<bar>real (units (round_ratio n d e)) - ratio n d e\<bar> \<le> ratio n d e / 2 ^ 53"
proof (cases "n = 0")
  case True
  then show ?thesis by (simp add: round_ratio_def ratio_def)
next
  case False
  then obtain k where k: "fits (ratio n d e) k"
    "round_ratio n d e = min (rnd (ratio n d e / 2 ^ k) + k * 2 ^ 52) inf_bits"
    using assms(1) round_ratio_fits by blast
  from False assms(1,2) obtain k' where k': "fits (ratio n d e) k'"
    "\<bar>real (units (round_ratio n d e)) - ratio n d e\<bar> \<le> 2 ^ k' / 2" using round_ratio_error by blast
  have "k' = k" using k(1) k'(1) by (rule fits_unique [symmetric])
  show ?thesis
  proof (cases "k = 0")
    case True
    with k(1) have small: "ratio n d e < 2 ^ 53" by (simp add: fits_def)
    with assms(3) obtain m where m: "ratio n d e = real m" by (auto elim: Nats_cases)
    with small have "real m < real (2 ^ 53)" by simp
    then have "m < 2 ^ 53" by (simp only: of_nat_less_iff)
    with True m k(2) assms(2) have "units (round_ratio n d e) = m"
      using units_pattern [of m 0] by simp
    with m show ?thesis by simp
  next
    case False
    with k(1) have "2 ^ 52 * 2 ^ k \<le> ratio n d e" by (simp add: fits_def)
    then have "2 ^ k / 2 \<le> ratio n d e / 2 ^ 53" by simp
    with k'(2) \<open>k' = k\<close> show ?thesis by simp
  qed
qed

lemma round_ratio_cong:
  assumes "0 < d" "0 < d'" "ratio n d e = ratio n' d' e'"
  shows "round_ratio n d e = round_ratio n' d' e'"
  using round_ratio_mono [OF assms(1,2)] round_ratio_mono [OF assms(2,1)] assms(3) by (simp add: order_antisym)

text \<open>One unit is \<open>2\<^sup>-\<^sup>1\<^sup>0\<^sup>7\<^sup>4\<close>; \<open>val\<close> is the real number a pattern stands for.\<close>

definition val :: "f64 \<Rightarrow> real" where
  "val x = real_of_int (sval x) / 2 ^ 1074"

lemma abs_val: "\<bar>val x\<bar> = real (units (abs_bits x)) / 2 ^ 1074"
  by (simp add: val_def sval_def)

lemma small_ratio_finite:
  assumes "0 < d" "ratio n d e \<le> 2 ^ 52 * 2 ^ 1074"
  shows "round_ratio n d e < inf_bits"
proof -
  have "ratio (2 ^ 52) 1 1074 = 2 ^ 52 * 2 ^ 1074"
    unfolding ratio_def by (simp only: power_int_numeral) simp
  then have "round_ratio n d e \<le> round_ratio (2 ^ 52) 1 1074" using assms by (intro round_ratio_mono) simp_all
  also have "\<dots> < inf_bits" by code_simp
  finally show ?thesis .
qed

section \<open>The four operations\<close>

lemma scale_error:
  fixes c :: real
  assumes "0 < c" "\<bar>u - v * c\<bar> \<le> w * c"
  shows "\<bar>u / c - v\<bar> \<le> w"
proof -
  have "\<bar>u / c - v\<bar> = \<bar>u - v * c\<bar> / c" using assms(1) by (simp add: abs_div_pos [symmetric] field_simps)
  with assms show ?thesis by (simp add: pos_divide_le_eq)
qed

text \<open>A price with eight decimals.\<close>

lemma decimal_ratio: "ratio n (10 ^ 8) 1074 = real n / 10 ^ 8 * 2 ^ 1074"
  unfolding ratio_def by (simp only: power_int_numeral) simp

lemma decimal_large:
  assumes "n \<noteq> 0"
  shows "2 ^ 53 \<le> ratio n (10 ^ 8) 1074"
proof -
  have "(2 :: real) ^ 1074 = 2 ^ 974 * 2 ^ 100" by (simp flip: power_add)
  moreover have "1 * 2 ^ 100 \<le> (2 :: real) ^ 974 * 2 ^ 100" by (rule mult_right_mono) simp_all
  ultimately have "(2 :: real) ^ 100 \<le> 2 ^ 1074" by simp
  then have "(2 :: real) ^ 53 \<le> 1 / 10 ^ 8 * 2 ^ 1074" by simp
  also have "\<dots> \<le> real n / 10 ^ 8 * 2 ^ 1074"
    using assms by (intro mult_right_mono divide_right_mono) simp_all
  finally show ?thesis by (simp only: decimal_ratio)
qed

lemma val_decimal:
  assumes "n < 2 ^ 52"
  shows "is_finite (f64_of_decimal False n (- 8))" "\<not> f64_neg (f64_of_decimal False n (- 8))"
    "\<bar>val (f64_of_decimal False n (- 8)) - real n / 10 ^ 8\<bar> \<le> real n / 10 ^ 8 / 2 ^ 53"
proof -
  let ?x = "f64_of_decimal False n (- 8)" and ?b = "round_ratio n (10 ^ 8) 1074"
  have x: "?x = f64_make False ?b" by (simp add: f64_of_decimal_def)
  have b: "?b < inf_bits" using assms by (intro round_ratio_small) simp_all
  show "\<not> f64_neg ?x" "is_finite ?x" using b unfolding x by (simp_all add: is_finite_def)
  have "ratio n (10 ^ 8) 1074 \<in> \<nat> \<or> 2 ^ 53 \<le> ratio n (10 ^ 8) 1074"
    using decimal_large [of n] by (cases "n = 0") (auto simp: ratio_def)
  from round_ratio_relative [OF _ b this]
  have "\<bar>real (units ?b) - real n / 10 ^ 8 * 2 ^ 1074\<bar> \<le> real n / 10 ^ 8 / 2 ^ 53 * 2 ^ 1074"
    unfolding decimal_ratio by simp
  moreover have "val ?x = real (units ?b) / 2 ^ 1074"
    unfolding x val_def sval_def by simp
  ultimately show "\<bar>val ?x - real n / 10 ^ 8\<bar> \<le> real n / 10 ^ 8 / 2 ^ 53"
    using scale_error [of "2 ^ 1074"] by (simp only: zero_less_power zero_less_numeral)
qed

text \<open>The difference.\<close>

lemma val_fsub:
  assumes "is_finite x" "is_finite y" "\<not> f64_neg x" "\<bar>val x - val y\<bar> \<le> 2 ^ 52"
  shows "is_finite (fsub x y)" "f64_neg (fsub x y) \<longleftrightarrow> val x < val y"
    "\<bar>val (fsub x y) - (val x - val y)\<bar> \<le> \<bar>val x - val y\<bar> / 2 ^ 53"
proof -
  define c :: real where "c = 2 ^ 1074"
  have c: "0 < c" by (simp add: c_def)
  have sub: "fsub x y = fadd x (fneg y)" using assms(2) by (simp add: fsub_def is_finite_iff)
  have "is_finite (fneg y)" using assms(2) by simp
  then obtain s m where sm: "sval x + sval (fneg y) = s * 2 ^ m"
    "fadd x (fneg y) = (if s = 0 then f64_zero (f64_neg x \<and> f64_neg (fneg y))
      else f64_make (s < 0) (round_ratio (nat \<bar>s\<bar>) 1 (int m)))" using assms(1) fadd_exact by blast
  have diff: "val x - val y = real_of_int s * 2 ^ m / c"
  proof -
    have "real_of_int (sval x - sval y) = real_of_int (s * 2 ^ m)" using sm(1) by simp
    then show ?thesis unfolding val_def c_def by (simp flip: diff_divide_distrib)
  qed
  have sign: "val x < val y \<longleftrightarrow> s < 0"
  proof -
    have "val x < val y \<longleftrightarrow> real_of_int s * 2 ^ m / c < 0" using diff by linarith
    then show ?thesis using c by (simp add: divide_less_0_iff mult_less_0_iff)
  qed
  let ?b = "round_ratio (nat \<bar>s\<bar>) 1 (int m)"
  have r: "ratio (nat \<bar>s\<bar>) 1 (int m) = \<bar>val x - val y\<bar> * c"
    unfolding diff using c by (simp add: ratio_def abs_mult)
  have "ratio (nat \<bar>s\<bar>) 1 (int m) \<le> 2 ^ 52 * 2 ^ 1074"
    unfolding r c_def using assms(4) by (intro mult_right_mono) simp_all
  then have b: "?b < inf_bits" by (intro small_ratio_finite) simp_all
  have "ratio (nat \<bar>s\<bar>) 1 (int m) = real (nat \<bar>s\<bar> * 2 ^ m)" by (simp add: ratio_def)
  then have nat: "ratio (nat \<bar>s\<bar>) 1 (int m) \<in> \<nat>" by (simp only: of_nat_in_Nats)
  show "is_finite (fsub x y)" "f64_neg (fsub x y) \<longleftrightarrow> val x < val y"
    using b assms(3) unfolding sub sm(2) sign
    by (auto simp: is_finite_def f64_zero_def abs_bits_f64_make f64_neg_f64_make inf_bits_def)
  have "\<bar>real (units ?b) - \<bar>val x - val y\<bar> * c\<bar> \<le> \<bar>val x - val y\<bar> / 2 ^ 53 * c"
    using round_ratio_relative [OF zero_less_one b disjI1 [OF nat]] unfolding r by simp
  from scale_error [OF c this] have err: "\<bar>real (units ?b) / c - \<bar>val x - val y\<bar>\<bar> \<le> \<bar>val x - val y\<bar> / 2 ^ 53" .
  have v: "val (fsub x y) = (if s < 0 then - (real (units ?b) / c) else real (units ?b) / c)"
  proof (cases "s = 0")
    case True
    then show ?thesis
      unfolding sub sm(2) by (simp add: val_def sval_def round_ratio_def f64_zero_def abs_bits_f64_make inf_bits_def)
  next
    case False
    then show ?thesis unfolding sub sm(2) c_def by (simp add: val_def sval_def)
  qed
  show "\<bar>val (fsub x y) - (val x - val y)\<bar> \<le> \<bar>val x - val y\<bar> / 2 ^ 53"
  proof (cases "s < 0")
    case True
    with sign have "\<bar>val x - val y\<bar> = val y - val x" by simp
    moreover have "\<bar>- q - (val x - val y)\<bar> = \<bar>q - (val y - val x)\<bar>" for q by linarith
    ultimately show ?thesis using err True unfolding v by simp
  next
    case False
    with sign have "\<bar>val x - val y\<bar> = val x - val y" by simp
    with err False show ?thesis unfolding v by simp
  qed
qed

text \<open>The scaling by \<open>1e8\<close>.\<close>

lemma f64_1e8_facts: "is_finite f64_1e8" "\<not> is_zero f64_1e8" "\<not> f64_neg f64_1e8"
  "units (abs_bits f64_1e8) = 10 ^ 8 * 2 ^ 1074" "mant f64_1e8 \<noteq> 0"
proof -
  show "is_finite f64_1e8" "\<not> is_zero f64_1e8" "\<not> f64_neg f64_1e8" "mant f64_1e8 \<noteq> 0" by code_simp+
  have "bits_mant (abs_bits f64_1e8) = 0x17d78400000000" "bits_scl (abs_bits f64_1e8) = 1048" by code_simp+
  moreover have "(2 :: nat) ^ 1074 = 2 ^ 26 * 2 ^ 1048" by (simp flip: power_add)
  ultimately show "units (abs_bits f64_1e8) = 10 ^ 8 * 2 ^ 1074" unfolding units_def by simp
qed

lemma val_fmul:
  assumes "is_finite x" "\<bar>val x\<bar> * 10 ^ 8 \<le> 2 ^ 52"
  shows "is_finite (fmul x f64_1e8)" "f64_neg (fmul x f64_1e8) = f64_neg x"
    "\<bar>\<bar>val (fmul x f64_1e8)\<bar> - \<bar>val x\<bar> * 10 ^ 8\<bar> \<le> \<bar>val x\<bar> * 10 ^ 8 / 2 ^ 53"
proof -
  define c :: real where "c = 2 ^ 1074"
  have c: "0 < c" by (simp add: c_def)
  let ?n = "mant x * mant f64_1e8" and ?e = "int (scl x) + int (scl f64_1e8) - 1074"
  let ?b = "round_ratio ?n 1 ?e"
  have mul: "fmul x f64_1e8 = f64_make (f64_neg x) ?b"
    using assms(1) f64_1e8_facts by (simp add: fmul_def Let_def is_finite_iff)
  have "ratio ?n 1 ?e = real (units (abs_bits x) * 10 ^ 8)"
    unfolding fmul_ratio f64_1e8_facts(4) by simp
  then have nat: "ratio ?n 1 ?e \<in> \<nat>" by (simp only: of_nat_in_Nats)
  have r: "ratio ?n 1 ?e = \<bar>val x\<bar> * 10 ^ 8 * c"
    unfolding fmul_ratio f64_1e8_facts(4) abs_val c_def by simp
  have "ratio ?n 1 ?e \<le> 2 ^ 52 * 2 ^ 1074"
    unfolding r c_def using assms(2) by (intro mult_right_mono) simp_all
  then have b: "?b < inf_bits" by (intro small_ratio_finite) simp_all
  then show "is_finite (fmul x f64_1e8)" "f64_neg (fmul x f64_1e8) = f64_neg x"
    unfolding mul by (simp_all add: is_finite_def)
  have "\<bar>real (units ?b) - \<bar>val x\<bar> * 10 ^ 8 * c\<bar> \<le> \<bar>val x\<bar> * 10 ^ 8 / 2 ^ 53 * c"
    using round_ratio_relative [OF zero_less_one b disjI1 [OF nat]] unfolding r by (simp add: mult_ac)
  from scale_error [OF c this] show "\<bar>\<bar>val (fmul x f64_1e8)\<bar> - \<bar>val x\<bar> * 10 ^ 8\<bar> \<le> \<bar>val x\<bar> * 10 ^ 8 / 2 ^ 53"
    unfolding abs_val mul c_def by simp
qed

text \<open>Rounding to an integer.\<close>

lemma units_whole:
  assumes "n \<le> 2 ^ 52"
  shows "units (round_ratio n 1 1074) = n * 2 ^ 1074" "round_ratio n 1 1074 < inf_bits"
proof -
  have r: "ratio n 1 1074 = real n * 2 ^ 1074"
    unfolding ratio_def by (simp only: power_int_numeral of_nat_1 div_by_1)
  have "real n \<le> real (2 ^ 52)" using assms by (simp only: of_nat_le_iff)
  then have "ratio n 1 1074 \<le> 2 ^ 52 * 2 ^ 1074" unfolding r by (intro mult_right_mono) simp_all
  then show fin: "round_ratio n 1 1074 < inf_bits" by (intro small_ratio_finite) simp_all
  show "units (round_ratio n 1 1074) = n * 2 ^ 1074"
  proof (cases "n = 0")
    case False
    then obtain k where k: "fits (ratio n 1 1074) k"
      "round_ratio n 1 1074 = min (rnd (ratio n 1 1074 / 2 ^ k) + k * 2 ^ 52) inf_bits"
      using round_ratio_fits [of n 1 1074] by auto
    have "k \<le> 1074"
    proof (rule ccontr)
      assume "\<not> k \<le> 1074"
      then have "(2::real) ^ 1075 \<le> 2 ^ k" by (intro power_increasing) simp_all
      then have "2 ^ 52 * 2 ^ 1075 \<le> (2::real) ^ 52 * 2 ^ k" by simp
      also have "\<dots> \<le> ratio n 1 1074" using k(1) \<open>\<not> k \<le> 1074\<close> by (simp add: fits_def)
      also have "\<dots> \<le> 2 ^ 52 * 2 ^ 1074" by fact
      finally show False by simp
    qed
    then have split: "(2::real) ^ 1074 = 2 ^ (1074 - k) * 2 ^ k" by (simp flip: power_add)
    have "ratio n 1 1074 / 2 ^ k = real (n * 2 ^ (1074 - k))" unfolding r split by simp
    then have m: "rnd (ratio n 1 1074 / 2 ^ k) = n * 2 ^ (1074 - k)" by (simp only: rnd_of_nat)
    with k(2) fin have "round_ratio n 1 1074 = n * 2 ^ (1074 - k) + k * 2 ^ 52" by simp
    then have "units (round_ratio n 1 1074) = n * 2 ^ (1074 - k) * 2 ^ k"
      using units_pattern [of "n * 2 ^ (1074 - k)" k] fits_rnd [OF k(1)] m by simp
    also have "\<dots> = n * 2 ^ 1074" using \<open>k \<le> 1074\<close> by (simp flip: power_add)
    finally show ?thesis .
  qed (simp add: round_ratio_def)
qed

lemma fround_near:
  assumes "is_finite x" "\<bar>\<bar>val x\<bar> - real n\<bar> < 1 / 2" "n < 2 ^ 51"
  shows "fround x = f64_make (f64_neg x) (round_ratio n 1 1074)"
proof -
  let ?d = "(2 :: nat) ^ (1074 - scl x)"
  have u: "\<bar>val x\<bar> = real (mant x) * 2 ^ scl x / 2 ^ 1074"
    by (simp add: abs_val units_def mant_def scl_def)
  have scl: "scl x < 1074"
  proof (rule ccontr)
    assume big: "\<not> scl x < 1074"
    then have "2 ^ 52 \<le> mant x" using bits_fields(3) [of "abs_bits x"] by (auto simp: mant_def scl_def)
    then have "real (2 ^ 52) \<le> real (mant x)" by (simp only: of_nat_le_iff)
    moreover have "(2::real) ^ 1074 \<le> 2 ^ scl x" using big by (intro power_increasing) simp_all
    ultimately have "2 ^ 52 * 2 ^ 1074 \<le> real (mant x) * 2 ^ scl x" by (intro mult_mono) simp_all
    then have "2 ^ 52 \<le> \<bar>val x\<bar>" unfolding u by (simp add: pos_le_divide_eq)
    moreover have "real n < real (2 ^ 51)" using assms(3) by (simp only: of_nat_less_iff)
    ultimately show False using assms(2) by simp
  qed
  have split: "(2::real) ^ 1074 = 2 ^ (1074 - scl x) * 2 ^ scl x" using scl by (simp flip: power_add)
  have v: "\<bar>val x\<bar> = real (mant x) / real ?d" unfolding u split by simp
  have d: "0 < real ?d" by simp
  have "real n - 1 / 2 < real (mant x) / real ?d" "real (mant x) / real ?d < real n + 1 / 2"
    using assms(2) unfolding v by linarith+
  then have "(real n - 1 / 2) * real ?d < real (mant x)" "real (mant x) < (real n + 1 / 2) * real ?d"
    using d by (simp_all only: pos_less_divide_eq pos_divide_less_eq)
  then have "real (2 * n * ?d) < real (2 * mant x + ?d)" "real (2 * mant x + ?d) < real ((n + 1) * (2 * ?d))"
    by (simp_all add: algebra_simps)
  then have b: "2 * n * ?d < 2 * mant x + ?d" "2 * mant x + ?d < (n + 1) * (2 * ?d)"
    by (simp_all only: of_nat_less_iff)
  have "(2 * mant x + ?d) div (2 * ?d) = n"
    using b by (intro div_nat_eqI) (simp_all add: mult.commute mult.left_commute)
  then show ?thesis using assms(1) scl by (simp add: fround_def Let_def)
qed

text \<open>The division by \<open>1e8\<close> of a whole number of ticks.\<close>

lemma fdiv_ticks:
  assumes "n \<le> 2 ^ 52"
  shows "fdiv (f64_make s (round_ratio n 1 1074)) f64_1e8 = f64_of_decimal s n (- 8)"
proof -
  let ?x = "f64_make s (round_ratio n 1 1074)"
  have x: "is_finite ?x" "f64_neg ?x = s" "units (abs_bits ?x) = n * 2 ^ 1074"
    using units_whole [OF assms] by (simp_all add: is_finite_def)
  have "ratio (mant ?x) (mant f64_1e8) (int (scl ?x) - int (scl f64_1e8) + 1074) = ratio n (10 ^ 8) 1074"
    unfolding fdiv_ratio [OF f64_1e8_facts(1,2)] x(3) f64_1e8_facts(4) decimal_ratio by simp
  then have "round_ratio (mant ?x) (mant f64_1e8) (int (scl ?x) - int (scl f64_1e8) + 1074) = round_ratio n (10 ^ 8) 1074"
    using f64_1e8_facts(5) by (intro round_ratio_cong) simp_all
  then show ?thesis
    using x(1,2) f64_1e8_facts by (simp add: fdiv_def Let_def is_finite_iff f64_of_decimal_def)
qed

section \<open>The spread\<close>

lemma spread_error:
  fixes a b p q :: real
  assumes "0 \<le> a" "a < 2 ^ 49" "0 \<le> b" "b < 2 ^ 49"
    and "\<bar>p - a / 10 ^ 8\<bar> \<le> a / 10 ^ 8 / 2 ^ 53" "\<bar>q - b / 10 ^ 8\<bar> \<le> b / 10 ^ 8 / 2 ^ 53"
  shows "\<bar>(p - q) * 10 ^ 8 - (a - b)\<bar> < 1 / 8"
  using assms by (simp add: abs_if field_simps split: if_splits)

lemma product_error:
  fixes d n v w :: real
  assumes "0 \<le> d" "d * 10 ^ 8 < 2 ^ 49 + 1" "\<bar>v - d\<bar> \<le> d / 2 ^ 53"
  shows "v * 10 ^ 8 < 2 ^ 50"
    "\<bar>w - v * 10 ^ 8\<bar> \<le> v * 10 ^ 8 / 2 ^ 53 \<Longrightarrow> \<bar>d * 10 ^ 8 - n\<bar> < 1 / 8 \<Longrightarrow> \<bar>w - n\<bar> < 1 / 2"
  using assms by (simp_all add: abs_if split: if_splits)

lemma same_sign: "\<bar>x - y\<bar> < 1 / 8 \<Longrightarrow> 1 \<le> \<bar>y\<bar> \<Longrightarrow> x < 0 \<longleftrightarrow> y < 0" for x y :: real
  by (cases "y < 0"; cases "x < 0") auto

lemma spread_of_decimals:
  assumes "A < 2 ^ 49" "B < 2 ^ 49"
  shows "spread_of (f64_of_decimal False A (- 8)) (f64_of_decimal False B (- 8)) =
    f64_of_decimal (A < B) (nat \<bar>int A - int B\<bar>) (- 8)"
proof -
  let ?a = "f64_of_decimal False A (- 8)" and ?b = "f64_of_decimal False B (- 8)"
  define n where "n = nat \<bar>int A - int B\<bar>"
  have n: "real n = \<bar>real A - real B\<bar>" by (simp add: n_def)
  have "n < 2 ^ 49" using assms by (simp add: n_def)
  then have n49: "real n < 2 ^ 49" by (metis of_nat_less_iff of_nat_numeral of_nat_power)
  have AB: "real A < 2 ^ 49" "real B < 2 ^ 49" using assms by (metis of_nat_less_iff of_nat_numeral of_nat_power)+
  have "A < 2 ^ 52" "B < 2 ^ 52" using assms by simp_all
  note a = val_decimal [OF this(1)] and b = val_decimal [OF this(2)]
  have e: "\<bar>(val ?a - val ?b) * 10 ^ 8 - (real A - real B)\<bar> < 1 / 8"
    using AB a(3) b(3) by (intro spread_error) simp_all
  define d where "d = val ?a - val ?b"
  have "\<bar>d\<bar> * 10 ^ 8 = \<bar>d * 10 ^ 8\<bar>" by (simp add: abs_mult)
  with e abs_triangle_ineq3 [of "d * 10 ^ 8" "real A - real B"]
  have dn: "\<bar>\<bar>d\<bar> * 10 ^ 8 - real n\<bar> < 1 / 8" unfolding d_def [symmetric] n by linarith
  then have d49: "\<bar>d\<bar> * 10 ^ 8 < 2 ^ 49 + 1" using n49 by linarith
  then have "\<bar>val ?a - val ?b\<bar> \<le> 2 ^ 52" by (simp add: d_def)
  note sub = val_fsub [OF a(1) b(1) a(2) this]
  let ?s = "fsub ?a ?b"
  have neg: "f64_neg ?s \<longleftrightarrow> A < B"
  proof (cases "A = B")
    case False
    then have "1 \<le> \<bar>real A - real B\<bar>" by linarith
    with e have "(val ?a - val ?b) * 10 ^ 8 < 0 \<longleftrightarrow> real A - real B < 0" by (rule same_sign)
    with sub(2) show ?thesis by (simp add: mult_less_0_iff)
  qed (use sub(2) in simp)
  have s: "\<bar>\<bar>val ?s\<bar> - \<bar>d\<bar>\<bar> \<le> \<bar>d\<bar> / 2 ^ 53" using sub(3) unfolding d_def [symmetric] by linarith
  note product = product_error [OF abs_ge_zero d49 s]
  then have "\<bar>val ?s\<bar> * 10 ^ 8 \<le> 2 ^ 52" by simp
  note mul = val_fmul [OF sub(1) this]
  have "\<bar>\<bar>val (fmul ?s f64_1e8)\<bar> - real n\<bar> < 1 / 2" using product(2) [OF mul(3) dn] .
  moreover have "n < 2 ^ 51" using \<open>n < 2 ^ 49\<close> by simp
  ultimately have "fround (fmul ?s f64_1e8) = f64_make (A < B) (round_ratio n 1 1074)"
    using fround_near [OF mul(1)] mul(2) neg by simp
  then show ?thesis using fdiv_ticks [of n "A < B"] \<open>n < 2 ^ 51\<close> by (simp add: spread_of_def n_def)
qed

lemma decimal_sign:
  assumes "n < 2 ^ 52"
  shows "flt (f64_of_decimal s n (- 8)) (f64_zero False) \<longleftrightarrow> s \<and> n \<noteq> 0"
    "flt (f64_zero False) (f64_of_decimal s n (- 8)) \<longleftrightarrow> \<not> s \<and> n \<noteq> 0"
    "feq (f64_of_decimal s n (- 8)) (f64_zero False) \<longleftrightarrow> n = 0"
proof -
  let ?b = "round_ratio n (10 ^ 8) 1074"
  have x: "f64_of_decimal s n (- 8) = f64_make s ?b" by (simp add: f64_of_decimal_def)
  have pos: "?b = 0 \<longleftrightarrow> n = 0"
  proof (cases "n = 0")
    case False
    then have one: "1 \<le> ratio n (10 ^ 8) 1074" using order_trans [OF _ decimal_large, of 1 n] by simp
    have "0 < ?b" by (rule round_ratio_pos [OF _ one]) simp
    with False show ?thesis by linarith
  qed (simp add: round_ratio_def)
  have zero: "ieee_key (f64_zero False) = 0" "\<not> is_nan (f64_zero False)" "abs_bits (f64_zero False) = 0"
    by code_simp+
  show "flt (f64_of_decimal s n (- 8)) (f64_zero False) \<longleftrightarrow> s \<and> n \<noteq> 0"
    "flt (f64_zero False) (f64_of_decimal s n (- 8)) \<longleftrightarrow> \<not> s \<and> n \<noteq> 0"
    "feq (f64_of_decimal s n (- 8)) (f64_zero False) \<longleftrightarrow> n = 0"
    using pos unfolding x by (auto simp: flt_def feq_def zero ieee_key_def rounded_simps simp del: f64_neg_f64_make abs_bits_f64_make)
qed

section \<open>Properties\<close>

text \<open>
  C17. Between best prices with eight decimals below \<open>2\<^sup>4\<^sup>9\<close> ticks the published spread is exact:
  it is the double that the decimal difference of the two prices itself parses to, negative
  exactly where the venues cross and zero exactly where the prices are equal. No rounding of
  the subtraction, the scaling or the division shows.
\<close>

theorem merge_spread_exact:
  assumes "merge venues = Some m"
    and "lv_price (hd (sm_asks m)) = f64_of_decimal False A (- 8)" "A < 2 ^ 49"
    and "lv_price (hd (sm_bids m)) = f64_of_decimal False B (- 8)" "B < 2 ^ 49"
  shows "sm_spread m = f64_of_decimal (A < B) (nat \<bar>int A - int B\<bar>) (- 8)
    \<and> (flt (sm_spread m) (f64_zero False) \<longleftrightarrow> A < B)
    \<and> (flt (f64_zero False) (sm_spread m) \<longleftrightarrow> B < A)
    \<and> (feq (sm_spread m) (f64_zero False) \<longleftrightarrow> A = B)"
proof -
  obtain b bs a as where
    "m = \<lparr>sm_spread = spread_of (lv_price a) (lv_price b), sm_bids = b # bs, sm_asks = a # as\<rparr>"
    using assms(1) by (rule merge_SomeE)
  with assms have eq: "sm_spread m = f64_of_decimal (A < B) (nat \<bar>int A - int B\<bar>) (- 8)"
    using spread_of_decimals [of A B] by simp
  have "nat \<bar>int A - int B\<bar> < 2 ^ 52" using assms(3,5) by simp
  from decimal_sign [OF this, of "A < B"] show ?thesis unfolding eq by auto
qed

text \<open>The book of the source's comment: 0.031505 and 0.031500, whose plain difference is off.\<close>

definition tick_venues :: "(venue, book) btree" where
  "tick_venues = bt_insert Binance
     \<lparr>bids = [(Price (f64_of_decimal False 3150000 (- 8)), Amount f64_1e8)],
      asks = [(Price (f64_of_decimal False 3150500 (- 8)), Amount f64_1e8)],
      last_update_id = 1, parse_started_at = 0, parsed_at = 0\<rparr> bt_empty"

theorem merge_spread_exact_witness:
  "\<exists>m. merge tick_venues = Some m \<and> price_parse ''0.00000500'' = Some (Price (sm_spread m))
     \<and> fsub (lv_price (hd (sm_asks m))) (lv_price (hd (sm_bids m))) \<noteq> sm_spread m"
proof -
  define m where "m = the (merge tick_venues)"
  have "merge tick_venues \<noteq> None" by code_simp
  then have some: "merge tick_venues = Some m" by (simp add: m_def)
  have prices: "lv_price (hd (sm_asks m)) = f64_of_decimal False 3150500 (- 8)"
    "lv_price (hd (sm_bids m)) = f64_of_decimal False 3150000 (- 8)"
    unfolding m_def by code_simp+
  have spread: "sm_spread m = f64_of_decimal False 500 (- 8)"
    using merge_spread_exact [OF some prices(1) _ prices(2)] by simp
  have "price_parse ''0.00000500'' = Some (Price (f64_of_decimal False 500 (- 8)))"
    "fsub (f64_of_decimal False 3150500 (- 8)) (f64_of_decimal False 3150000 (- 8)) \<noteq> f64_of_decimal False 500 (- 8)"
    by code_simp+
  with some spread prices show ?thesis by metis
qed

end
