(* ===== verification/End_To_End.thy ===== *)
theory End_To_End
  imports System
begin

text \<open>
  From the venues to the terminals: the process of \<open>System\<close>, the subscribers of
  \<open>Watch_Service\<close> on what its aggregator publishes, and the clients that draw what they get. The
  two meet in the watch channel only, so an interleaving of both is a run of each in which the
  values sent are the summaries emitted.
\<close>

section \<open>Subscribers of a process\<close>

definition served :: "('h, 'c, 'e) system \<Rightarrow> serving_event list \<Rightarrow> bool" where
  "served s es \<longleftrightarrow> sent_by es = published_of (sy_emitted s)"

lemma served_subseq:
  assumes "watch_channel wops current version gone seen" "served s es"
  shows "subseq (sv_got (serve_all wops es) i) (published_of (sy_emitted s))"
  using watch_channel.serve_all_subseq [OF assms(1), of es i] assms(2) by (simp add: served_def)

section \<open>Properties\<close>

text \<open>
  C1. End to end: every summary that reaches a subscriber is the merge of the books that were
  fresh when it was published, each parsed by its own venue's feed; a subscriber gets them in
  the order of publication and none twice; and a client draws a frame of 18 lines for each of
  them, without panic, over all its connections.
\<close>

theorem subscribers_end_to_end:
  assumes "bounded_channel ch queued bound" "watch_channel wops current version gone seen"
    "spawn_tasks ops ch fe config = Done s0" "sys_steps ops ch t0 s0 s" "served s es"
  shows "(\<forall>i. subseq (sv_got (serve_all wops es) i) (published_of (sy_emitted s)))
    \<and> (\<forall>i m. m \<in> set (sv_got (serve_all wops es) i) \<longrightarrow>
         (\<exists>pre. prefix pre (sy_events s) \<and> merged_from_feeds fe (cf_pair config) pre m))
    \<and> (\<exists>st sn frames. client colour t1 t2
          (None # map (\<lambda>i. Some (map (\<lambda>m. Received_Summary m (r m) True) (sv_got (serve_all wops es) i))) calls)
          = Done (st, sn, frames)
        \<and> length frames = length (concat (map (sv_got (serve_all wops es)) calls))
        \<and> list_all (\<lambda>f. newlines f = 18) frames)"
proof -
  note sub = served_subseq [OF assms(2,5)]
  have "\<exists>pre. prefix pre (sy_events s) \<and> merged_from_feeds fe (cf_pair config) pre m"
    if "m \<in> set (sv_got (serve_all wops es) i)" for i m
    using emitted_merges [OF assms(1,3,4)] subseq_set [OF sub] that by blast
  moreover have "run ops t0 (sy_events s) =
      Done (sy_aggregator s, sy_emitted s, if sy_open s then None else Some No_Data)"
    by (rule bounded_channel.steps_run [OF assms(1,4) spawn_tasks_started [OF assms(3)]])
  from streams_draw [OF this, of "map (sv_got (serve_all wops es)) calls" colour t1 t2 r]
  have "\<exists>st sn frames. client colour t1 t2
        (None # map (\<lambda>i. Some (map (\<lambda>m. Received_Summary m (r m) True) (sv_got (serve_all wops es) i))) calls)
        = Done (st, sn, frames)
      \<and> length frames = length (concat (map (sv_got (serve_all wops es)) calls))
      \<and> list_all (\<lambda>f. newlines f = 18) frames"
    using sub by (auto simp: comp_def)
  ultimately show ?thesis using sub by blast
qed

text \<open>The process of the sample has published its summary; a call made before gets it.\<close>

theorem subscribers_end_to_end_witness:
  "\<exists>s m. sys_steps sample_ops list_channel 0 sample_system s
     \<and> sv_got (serve_all versioned [Call 0, Poll 0, Send m, Poll 0]) 0 = [m]
     \<and> merged_from_feeds sample_feeds ''ethbtc'' (sy_events s) m"
proof -
  obtain s m where s: "sys_step sample_ops list_channel 0 sample_handed s"
    "sy_events s = [Message Binance sample_book (5, 6, 7)]" "sy_emitted s = [Published m]"
    using sample_takes by blast
  from sample_hands_on s(1) have steps: "sys_steps sample_ops list_channel 0 sample_system s"
    by (rule rtranclp.rtrancl_into_rtrancl)
  let ?es = "[Call 0, Poll 0, Send m, Poll 0]"
  have "served s ?es" by (simp add: served_def s(3))
  note all = subscribers_end_to_end [OF list_channel.bounded_channel_axioms versioned.watch_channel_axioms
    sample_spawn steps this]
  have got: "sv_got (serve_all versioned ?es) 0 = [m]"
    by (simp add: serve_all_def serving_start_def versioned_def book_summary_call_def poll_stream_def)
  then obtain pre where "prefix pre (sy_events s)" "merged_from_feeds sample_feeds (cf_pair config_default) pre m"
    using all by (metis list.set_intros(1))
  moreover from this have "pre \<noteq> []" by (auto simp: merged_from_feeds_def)
  ultimately have "merged_from_feeds sample_feeds ''ethbtc'' (sy_events s) m"
    by (simp add: s(2) config_default_def prefix_Cons)
  with steps got show ?thesis by blast
qed

end
