(* ===== verification/Load_Test.thy ===== *)
theory Load_Test
  imports Exchange
begin

text \<open>
  \<open>src/bin/loadtest.rs\<close>: subscribers that count what they receive into one shared counter, and
  the line printed at the end. The network enters as the results of each client's awaits; the
  clients run concurrently, so a run is their interleaving, cut off where \<open>main\<close> aborts them.
\<close>

section \<open>The command line\<close>

record lt_cli =
  lt_addr :: string
  lt_clients :: nat
  lt_duration_secs :: u64

definition lt_default :: lt_cli where
  "lt_default = \<lparr>lt_addr = ''http://127.0.0.1:50051'', lt_clients = 100, lt_duration_secs = 60\<rparr>"

text \<open>\<open>client_id as u32\<close> keeps the low 32 bits.\<close>

definition stagger :: "nat \<Rightarrow> duration" where
  "stagger client_id = from_millis 5 * unat (word_of_nat client_id :: u32)"

section \<open>A client\<close>

text \<open>What an await returns: the connection, the call, or the next item of the stream, if any.\<close>

datatype lt_poll =
    Connected bool
  | Subscribed bool
  | Next "bool option"

datatype lt_phase = Connecting | Subscribing | Streaming | Returned bool

text \<open>
  The phase after an await, and whether the counter is incremented; an await that the phase
  does not make is no step of the code.
\<close>

fun subscribe_and_count :: "lt_phase \<Rightarrow> lt_poll \<Rightarrow> lt_phase \<times> bool" where
  "subscribe_and_count Connecting (Connected ok) = (if ok then Subscribing else Returned False, False)"
| "subscribe_and_count Subscribing (Subscribed ok) = (if ok then Streaming else Returned False, False)"
| "subscribe_and_count Streaming (Next None) = (Returned True, False)"
| "subscribe_and_count Streaming (Next (Some item)) =
     (if item then (Streaming, True) else (Returned False, False))"
| "subscribe_and_count (Returned ok) _ = (Returned ok, False)"
| "subscribe_and_count _ _ = (Returned False, False)"

section \<open>The run\<close>

record lt_state =
  lt_phases :: "nat \<Rightarrow> lt_phase"
  lt_total :: u64

definition lt_start :: lt_state where
  "lt_start = \<lparr>lt_phases = (\<lambda>_. Connecting), lt_total = 0\<rparr>"

definition lt_step :: "nat \<times> lt_poll \<Rightarrow> lt_state \<Rightarrow> lt_state" where
  "lt_step e st =
     (let (client_id, poll) = e; (phase, counted) = subscribe_and_count (lt_phases st client_id) poll
      in \<lparr>lt_phases = (lt_phases st)(client_id := phase),
          lt_total = (if counted then lt_total st + 1 else lt_total st)\<rparr>)"

definition lt_run :: "(nat \<times> lt_poll) list \<Rightarrow> lt_state" where
  "lt_run es = fold lt_step es lt_start"

definition lt_rate :: "u64 \<Rightarrow> u64 \<Rightarrow> f64" where
  "lt_rate received duration_secs = fdiv (f64_of_nat (unat received)) (f64_of_nat (unat duration_secs))"

definition lt_report :: "lt_cli \<Rightarrow> u64 \<Rightarrow> string" where
  "lt_report cli received =
     show_nat (lt_clients cli) @ '' clients, '' @ show_nat (unat (lt_duration_secs cli)) @ ''s: ''
       @ show_nat (unat received) @ '' messages received, ''
       @ fmt_f64 2 (lt_rate received (lt_duration_secs cli)) @ '' msg/s aggregate''"

definition load_test :: "lt_cli \<Rightarrow> (nat \<times> lt_poll) list \<Rightarrow> string" where
  "load_test cli es = lt_report cli (lt_total (lt_run (filter (\<lambda>e. fst e < lt_clients cli) es)))"

lemma lt_report_samples:
  "lt_report lt_default 6001 = ''100 clients, 60s: 6001 messages received, 100.02 msg/s aggregate''"
  "lt_report \<lparr>lt_addr = [], lt_clients = 1, lt_duration_secs = 0\<rparr> 0 =
     ''1 clients, 0s: 0 messages received, NaN msg/s aggregate''"
  "lt_report \<lparr>lt_addr = [], lt_clients = 1, lt_duration_secs = 0\<rparr> 5 =
     ''1 clients, 0s: 5 messages received, inf msg/s aggregate''"
  by code_simp+

section \<open>The counter\<close>

text \<open>The messages of one client: the items before the first error or the end of the stream.\<close>

fun messages :: "lt_poll list \<Rightarrow> nat" where
  "messages (Connected True # Subscribed True # ps) = length (takeWhile (\<lambda>p. p = Next (Some True)) ps)"
| "messages _ = 0"

definition polls_of :: "nat \<Rightarrow> (nat \<times> lt_poll) list \<Rightarrow> lt_poll list" where
  "polls_of i es = map snd (filter (\<lambda>e. fst e = i) es)"

definition client_step :: "lt_poll \<Rightarrow> lt_phase \<times> nat \<Rightarrow> lt_phase \<times> nat" where
  "client_step p s = (fst (subscribe_and_count (fst s) p), snd s + (if snd (subscribe_and_count (fst s) p) then 1 else 0))"

definition client_run :: "lt_poll list \<Rightarrow> lt_phase \<times> nat" where
  "client_run ps = fold client_step ps (Connecting, 0)"

lemma client_returned: "fold client_step ps (Returned ok, n) = (Returned ok, n)"
  by (induction ps) (simp_all add: client_step_def)

lemma streaming_stops:
  "p \<noteq> Next (Some True) \<Longrightarrow> client_step p (Streaming, n) = (Returned (p = Next None), n)"
proof (cases p)
  case (Next x)
  then show "p \<noteq> Next (Some True) \<Longrightarrow> ?thesis" by (cases x) (auto simp: client_step_def)
qed (simp_all add: client_step_def)

lemma client_streaming:
  "snd (fold client_step ps (Streaming, n)) = n + length (takeWhile (\<lambda>p. p = Next (Some True)) ps)"
proof (induction ps arbitrary: n)
  case (Cons p ps)
  show ?case
  proof (cases "p = Next (Some True)")
    case True
    with Cons show ?thesis by (simp add: client_step_def)
  next
    case False
    then show ?thesis by (simp add: streaming_stops client_returned)
  qed
qed simp

lemma client_fails:
  "p \<noteq> Connected True \<Longrightarrow> client_step p (Connecting, n) = (Returned False, n)"
  "p \<noteq> Subscribed True \<Longrightarrow> client_step p (Subscribing, n) = (Returned False, n)"
  by (cases p; simp add: client_step_def)+

lemma messages_eq:
  "messages ps = (case ps of
     p # q # rs \<Rightarrow> if p = Connected True \<and> q = Subscribed True
       then length (takeWhile (\<lambda>p. p = Next (Some True)) rs) else 0
   | _ \<Rightarrow> 0)"
  by (cases ps rule: messages.cases) (simp_all split: list.split)

lemma client_run_messages: "snd (client_run ps) = messages ps"
proof (cases ps)
  case (Cons p qs)
  show ?thesis
  proof (cases "p = Connected True")
    case p: True
    then have step: "client_step p (Connecting, 0) = (Subscribing, 0)" by (simp add: client_step_def)
    show ?thesis
    proof (cases qs)
      case q: (Cons q rs)
      show ?thesis
      proof (cases "q = Subscribed True")
        case True
        then have "client_step q (Subscribing, 0) = (Streaming, 0)" by (simp add: client_step_def)
        with Cons p q True step client_streaming [of rs 0] show ?thesis by (simp add: client_run_def)
      next
        case False
        with Cons q step show ?thesis
          by (simp add: client_run_def client_fails client_returned messages_eq)
      qed
    qed (use Cons step in \<open>simp add: client_run_def messages_eq\<close>)
  next
    case False
    with Cons show ?thesis by (simp add: client_run_def client_fails client_returned messages_eq split: list.split)
  qed
qed (simp add: client_run_def)

lemma polls_of_snoc: "polls_of i (es @ [e]) = polls_of i es @ (if fst e = i then [snd e] else [])"
  by (simp add: polls_of_def)

lemma lt_run_clients:
  "list_all (\<lambda>e. fst e < n) es \<Longrightarrow>
     (\<forall>i. lt_phases (lt_run es) i = fst (client_run (polls_of i es)))
     \<and> lt_total (lt_run es) = word_of_nat (\<Sum>i<n. snd (client_run (polls_of i es)))"
proof (induction es rule: rev_induct)
  case Nil
  show ?case by (simp add: lt_run_def lt_start_def client_run_def polls_of_def)
next
  case (snoc e es)
  obtain j p where e: "e = (j, p)" by (cases e)
  have j: "j < n" using snoc.prems by (simp add: e)
  define c where "c = snd (subscribe_and_count (lt_phases (lt_run es) j) p)"
  have ih: "lt_phases (lt_run es) i = fst (client_run (polls_of i es))"
    "lt_total (lt_run es) = word_of_nat (\<Sum>i<n. snd (client_run (polls_of i es)))" for i
    using snoc by simp_all
  have run: "client_run (polls_of i (es @ [(j, p)])) =
      (if i = j then client_step p (client_run (polls_of j es)) else client_run (polls_of i es))" for i
    by (simp add: polls_of_snoc client_run_def)
  have "snd (client_run (polls_of i (es @ [(j, p)]))) = snd (client_run (polls_of i es)) + (if i = j then if c then 1 else 0 else 0)" for i
    by (simp add: run client_step_def c_def ih(1))
  then have "(\<Sum>i<n. snd (client_run (polls_of i (es @ [(j, p)])))) =
      (\<Sum>i<n. snd (client_run (polls_of i es))) + (if c then 1 else 0)"
    using j by (simp add: sum.distrib)
  moreover have "lt_run (es @ [(j, p)]) = lt_step (j, p) (lt_run es)" by (simp add: lt_run_def)
  ultimately show ?case
    by (auto simp: lt_step_def e run client_step_def c_def ih case_prod_beta' Let_def)
qed

section \<open>Properties\<close>

text \<open>
  C40. However the clients' awaits interleave and wherever the run is cut off, the load test
  reports the sum over its clients of the messages each received before its stream failed or
  ended, modulo the counter's width; a client that cannot connect or subscribe adds nothing.
\<close>

theorem load_test_counts_messages:
  "load_test cli es = lt_report cli (word_of_nat (\<Sum>i<lt_clients cli. messages (polls_of i es)))"
proof -
  let ?es = "filter (\<lambda>e. fst e < lt_clients cli) es"
  have "polls_of i ?es = polls_of i es" if "i < lt_clients cli" for i
    using that by (auto simp: polls_of_def intro!: arg_cong [where f = "map snd"] filter_cong)
  moreover have "list_all (\<lambda>e. fst e < lt_clients cli) ?es" by (simp add: list_all_iff)
  ultimately show ?thesis
    using lt_run_clients [of "lt_clients cli" ?es] by (simp add: load_test_def client_run_messages)
qed

end
