(* ===== verification/Tests_Core.thy ===== *)
theory Tests_Core
  imports Reconnect Proxy Config
begin

text \<open>
  The unit tests of \<open>src/model.rs\<close>, \<open>src/exchange/mod.rs\<close>, \<open>src/config.rs\<close>, \<open>src/proxy.rs\<close> and
  \<open>src/feed.rs\<close>, run on the model: each is a boolean, the conjunction of the test's assertions in
  order, under the test's name. An \<open>expect\<close> or \<open>unwrap\<close> that would panic is False; the clock of a
  test is an argument.
\<close>

definition expect :: "'a option \<Rightarrow> ('a \<Rightarrow> bool) \<Rightarrow> bool" where
  "expect x P = (case x of None \<Rightarrow> False | Some y \<Rightarrow> P y)"

lemma expect_simps [simp]: "expect None P = False" "expect (Some y) P = P y"
  by (simp_all add: expect_def)

definition f64_abs :: "f64 \<Rightarrow> f64" where
  "f64_abs x = (if f64_neg x then fneg x else x)"

section \<open>\<open>src/model.rs\<close>\<close>

definition price_round_trips_through_display :: bool where
  "price_round_trips_through_display \<longleftrightarrow>
     expect (price_parse ''0.03150000'') (\<lambda>price. price_display price = ''0.03150000'')"

definition prices_sort_ascending_by_value :: bool where
  "prices_sort_ascending_by_value \<longleftrightarrow>
     expect (collect_options (map price_parse [''0.0320'', ''0.0100'', ''0.0315'', ''0.0001''])) (\<lambda>prices.
       map price_display (sort_by price_cmp prices)
         = [''0.00010000'', ''0.01000000'', ''0.03150000'', ''0.03200000''])"

definition equal_prices_compare_equal :: bool where
  "equal_prices_compare_equal \<longleftrightarrow>
     expect (price_parse ''0.03150000'') (\<lambda>a. expect (price_parse ''0.03150000'') (\<lambda>b.
       price_cmp a b = Equal \<and> price_partial_cmp a b \<noteq> Some Less \<and> price_partial_cmp b a \<noteq> Some Less))"

definition a_negative_price_string_is_accepted_not_rejected :: bool where
  "a_negative_price_string_is_accepted_not_rejected \<longleftrightarrow> price_parse ''-0.001'' \<noteq> None"

definition model_tests :: "bool list" where
  "model_tests = [price_round_trips_through_display, prices_sort_ascending_by_value,
     equal_prices_compare_equal, a_negative_price_string_is_accepted_not_rejected]"

lemma model_tests_pass: "list_all id model_tests"
  by code_simp

section \<open>\<open>src/exchange/mod.rs\<close>\<close>

definition thresholds_differ_per_venue :: bool where
  "thresholds_differ_per_venue \<longleftrightarrow>
     staleness_threshold Binance \<noteq> staleness_threshold Bitstamp
     \<and> staleness_threshold Bitstamp \<noteq> staleness_threshold Kraken
     \<and> staleness_threshold Binance \<noteq> staleness_threshold Kraken"

definition venue_display_matches_the_wire_contracts_lowercase_strings :: bool where
  "venue_display_matches_the_wire_contracts_lowercase_strings \<longleftrightarrow>
     venue_display Binance = ''binance'' \<and> venue_display Bitstamp = ''bitstamp''
     \<and> venue_display Kraken = ''kraken''"

definition exchange_tests :: "bool list" where
  "exchange_tests = [thresholds_differ_per_venue,
     venue_display_matches_the_wire_contracts_lowercase_strings]"

lemma exchange_tests_pass: "list_all id exchange_tests"
  by code_simp

section \<open>\<open>src/config.rs\<close>\<close>

definition defaults_are_usable_with_no_environment :: bool where
  "defaults_are_usable_with_no_environment \<longleftrightarrow>
     (let c = config_default
      in cf_port c = 50051 \<and> cf_host c = ''127.0.0.1'' \<and> cf_pair c = ''ethbtc'')"

definition invalid_port_is_an_error_not_a_fallback :: "env \<Rightarrow> bool" where
  "invalid_port_is_an_error_not_a_fallback var \<longleftrightarrow>
     (case from_env (var(''ORDERBOOK_PORT'' \<mapsto> ''not-a-number'')) of
        Inr c \<Rightarrow> False
      | Inl err \<Rightarrow> (case err of InvalidPort raw \<Rightarrow> True))"

definition config_tests :: "env \<Rightarrow> bool list" where
  "config_tests var = [defaults_are_usable_with_no_environment, invalid_port_is_an_error_not_a_fallback var]"

lemma config_tests_pass:
  "defaults_are_usable_with_no_environment" "invalid_port_is_an_error_not_a_fallback var"
proof -
  show "defaults_are_usable_with_no_environment" by code_simp
  have "parse_u16 ''not-a-number'' = None" by code_simp
  then show "invalid_port_is_an_error_not_a_fallback var"
    by (simp add: invalid_port_is_an_error_not_a_fallback_def from_env_eq)
qed

section \<open>\<open>src/proxy.rs\<close>\<close>

definition parses_well_formed_values :: bool where
  "parses_well_formed_values \<longleftrightarrow>
     parse_proxy_addr ''http://100.64.1.2:3128'' = Some (''100.64.1.2'', 3128)
     \<and> parse_proxy_addr ''proxy.local:8080'' = Some (''proxy.local'', 8080)
     \<and> parse_proxy_addr ''http://proxy.local:8080/'' = Some (''proxy.local'', 8080)"

definition rejects_unparseable_input :: bool where
  "rejects_unparseable_input \<longleftrightarrow>
     parse_proxy_addr ''http://proxy.local'' = None
     \<and> parse_proxy_addr ''http://proxy.local:notaport'' = None
     \<and> parse_proxy_addr [] = None"

definition proxy_tests :: "bool list" where
  "proxy_tests = [parses_well_formed_values, rejects_unparseable_input]"

lemma proxy_tests_pass: "list_all id proxy_tests"
  by code_simp

section \<open>\<open>src/feed.rs\<close>\<close>

text \<open>The delays of the next \<open>n\<close> calls, with what happens between the calls.\<close>

fun observe :: "nat \<Rightarrow> (backoff \<Rightarrow> backoff) \<Rightarrow> backoff \<Rightarrow> duration list \<times> backoff" where
  "observe 0 between b = ([], b)"
| "observe (Suc n) between b =
     (let (b, delay) = next_delay b; (ds, b) = observe n between (between b) in (delay # ds, b))"

definition backoff_grows_and_caps :: bool where
  "backoff_grows_and_caps \<longleftrightarrow>
     (let (first, b) = observe 9 id backoff_new; (rest, b) = observe 1000 id b
      in first = map from_secs [1, 2, 4, 8, 16, 30, 30, 30, 30]
         \<and> list_all (\<lambda>d. d \<le> from_secs 30) rest)"

definition a_short_lived_connection_does_not_reset_the_thrash_loop :: "instant \<Rightarrow> bool" where
  "a_short_lived_connection_does_not_reset_the_thrash_loop now \<longleftrightarrow>
     fst (observe 5 (\<lambda>b. reset_if_stable b now (now + from_millis 50)) backoff_new)
       = map from_secs [1, 2, 4, 8, 16]"

definition a_stable_connection_does_reset :: "instant \<Rightarrow> bool" where
  "a_stable_connection_does_reset connected_at \<longleftrightarrow>
     (let b = snd (observe 3 id backoff_new);
          judged_at = connected_at + STABILITY_WINDOW + from_secs 1
      in snd (next_delay (reset_if_stable b connected_at judged_at)) = from_secs 1)"

text \<open>The draws of the random generator are an argument.\<close>

definition jitter_stays_within_range :: "f64 list \<Rightarrow> bool" where
  "jitter_stays_within_range draws \<longleftrightarrow>
     (let nominal = from_secs 10;
          jitters = map (\<lambda>m. jittered m nominal) draws
      in (case (mul_f64 nominal f64_half, mul_f64 nominal f64_three_halves) of
            (Done lower, Done upper) \<Rightarrow>
              list_all (\<lambda>j. case j of Panic \<Rightarrow> False | Done d \<Rightarrow> lower \<le> d \<and> d \<le> upper) jitters
              \<and> list_ex (\<lambda>j. case j of Panic \<Rightarrow> False | Done d \<Rightarrow> d < nominal) jitters
              \<and> list_ex (\<lambda>j. case j of Panic \<Rightarrow> False | Done d \<Rightarrow> nominal < d) jitters
          | _ \<Rightarrow> False))"

definition bucket_empties_and_refills :: "instant \<Rightarrow> bool" where
  "bucket_empties_and_refills t0 \<longleftrightarrow>
     (let bucket = (token_bucket_new f64_five f64_one t0)\<lparr>tb_last_refill := t0, tb_tokens := f64_zero False\<rparr>;
          bucket = refill bucket (t0 + from_millis 2500)
      in flt (f64_abs (fsub (tb_tokens bucket) 0x4004000000000000)) 0x3e112e0be826d695)"

definition bucket_does_not_exceed_capacity :: "instant \<Rightarrow> bool" where
  "bucket_does_not_exceed_capacity t0 \<longleftrightarrow>
     (let bucket = (token_bucket_new f64_five f64_one t0)\<lparr>tb_last_refill := t0, tb_tokens := f64_zero False\<rparr>;
          bucket = refill bucket (t0 + from_secs 3600)
      in feq (tb_tokens bucket) f64_five)"

definition feed_tests :: "instant \<Rightarrow> f64 list \<Rightarrow> bool list" where
  "feed_tests now draws = [backoff_grows_and_caps, a_short_lived_connection_does_not_reset_the_thrash_loop now,
     a_stable_connection_does_reset now, jitter_stays_within_range draws, bucket_empties_and_refills now,
     bucket_does_not_exceed_capacity now]"

lemma next_delay_capped: "snd (next_delay b) \<le> from_secs 30"
proof -
  have "unat (min s 30) \<le> unat (30 :: u64)" for s :: u64
    unfolding word_le_nat_alt [symmetric] by (rule min.cobounded2)
  then show ?thesis by (simp add: next_delay_def from_secs_def Let_def)
qed

lemma observe_capped: "list_all (\<lambda>d. d \<le> from_secs 30) (fst (observe n f b))"
  by (induction n arbitrary: b) (simp_all add: case_prod_beta' Let_def next_delay_capped)

lemma feed_tests_pass:
  "backoff_grows_and_caps" "a_short_lived_connection_does_not_reset_the_thrash_loop now"
  "a_stable_connection_does_reset now"
  "jitter_stays_within_range [f64_half, 0x3fe8000000000000, f64_one, 0x3ff4000000000000]"
  "bucket_empties_and_refills now" "bucket_does_not_exceed_capacity now"
proof -
  have "fst (observe 9 id backoff_new) = map from_secs [1, 2, 4, 8, 16, 30, 30, 30, 30]" by code_simp
  then show "backoff_grows_and_caps"
    using observe_capped [of 1000 id] by (simp add: backoff_grows_and_caps_def Let_def case_prod_beta')
  have "reset_if_stable b now (now + from_millis 50) = b" for b
    by (simp add: reset_if_stable_def STABILITY_WINDOW_def from_secs_def from_millis_def duration_since_def)
  moreover have "fst (observe 5 (\<lambda>b. b) backoff_new) = map from_secs [1, 2, 4, 8, 16]" by code_simp
  ultimately show "a_short_lived_connection_does_not_reset_the_thrash_loop now"
    by (simp add: a_short_lived_connection_does_not_reset_the_thrash_loop_def)
  have "reset_if_stable b now (now + STABILITY_WINDOW + from_secs 1) = b\<lparr>bo_attempt := 0\<rparr>" for b
    by (simp add: reset_if_stable_def from_secs_def duration_since_def)
  moreover have "snd (next_delay ((snd (observe 3 id backoff_new))\<lparr>bo_attempt := 0\<rparr>)) = from_secs 1" by code_simp
  ultimately show "a_stable_connection_does_reset now"
    by (simp add: a_stable_connection_does_reset_def Let_def)
  have "mul_f64 (from_secs 10) f64_half = Done 5000000000" by code_simp
  moreover have "mul_f64 (from_secs 10) 0x3fe8000000000000 = Done 7500000000" by code_simp
  moreover have "mul_f64 (from_secs 10) f64_one = Done 10000000000" by code_simp
  moreover have "mul_f64 (from_secs 10) 0x3ff4000000000000 = Done 12500000000" by code_simp
  moreover have "mul_f64 (from_secs 10) f64_three_halves = Done 15000000000" by code_simp
  ultimately show "jitter_stays_within_range [f64_half, 0x3fe8000000000000, f64_one, 0x3ff4000000000000]"
    by (simp add: jitter_stays_within_range_def jittered_def Let_def from_secs_def)
  have "flt (f64_abs (fsub (fmin (fadd (f64_zero False) (fmul (as_secs_f64 (from_millis 2500)) f64_one)) f64_five)
      0x4004000000000000)) 0x3e112e0be826d695" by code_simp
  then show "bucket_empties_and_refills now"
    by (simp add: bucket_empties_and_refills_def refill_def token_bucket_new_def duration_since_def Let_def)
  have "feq (fmin (fadd (f64_zero False) (fmul (as_secs_f64 (from_secs 3600)) f64_one)) f64_five) f64_five"
    by code_simp
  then show "bucket_does_not_exceed_capacity now"
    by (simp add: bucket_does_not_exceed_capacity_def refill_def token_bucket_new_def duration_since_def Let_def)
qed

end
