(* ===== verification/Tests_Merge.thy ===== *)
theory Tests_Merge
  imports Tests_Core Aggregator_Task
begin

text \<open>
  The unit tests of \<open>src/merge.rs\<close> and \<open>src/aggregator.rs\<close>, run on the model. The tests that
  read the watch channel look at what is sent into it; the histogram of the aggregator's tests
  is the list of its samples.
\<close>

section \<open>\<open>src/merge.rs\<close>\<close>

definition test_level :: "string \<times> string \<Rightarrow> level option" where
  "test_level pa =
     (case price_parse (fst pa) of
        None \<Rightarrow> None
      | Some p \<Rightarrow> (case amount_parse (snd pa) of None \<Rightarrow> None | Some a \<Rightarrow> Some (p, a)))"

definition book_from :: "(string \<times> string) list \<Rightarrow> (string \<times> string) list \<Rightarrow> instant \<Rightarrow> book option" where
  "book_from bs as now =
     (case collect_options (map test_level bs) of
        None \<Rightarrow> None
      | Some bs \<Rightarrow>
          (case collect_options (map test_level as) of
             None \<Rightarrow> None
           | Some as \<Rightarrow> Some \<lparr>bids = bs, asks = as, last_update_id = 1,
               parse_started_at = now, parsed_at = now\<rparr>))"

definition ask_prefers_lower_price_bid_prefers_higher :: bool where
  "ask_prefers_lower_price_bid_prefers_higher \<longleftrightarrow>
     expect (test_level (''0.0314'', ''1.0'')) (\<lambda>cheap. expect (test_level (''0.0316'', ''1.0'')) (\<lambda>expensive.
       better Ask cheap expensive = Less \<and> better Bid expensive cheap = Less))"

definition equal_price_prefers_larger_amount_on_both_sides :: bool where
  "equal_price_prefers_larger_amount_on_both_sides \<longleftrightarrow>
     expect (test_level (''0.0314'', ''1.0'')) (\<lambda>small. expect (test_level (''0.0314'', ''2.0'')) (\<lambda>large.
       better Ask large small = Less \<and> better Bid large small = Less))"

text \<open>The floating-point literals of a test are read as Rust reads them.\<close>

definition two_books_merge_into_correct_top_ten_and_spread :: "instant \<Rightarrow> bool" where
  "two_books_merge_into_correct_top_ten_and_spread now \<longleftrightarrow>
     expect (book_from [(''0.0314'', ''1.0''), (''0.0312'', ''1.0'')]
                       [(''0.0316'', ''1.0''), (''0.0318'', ''1.0'')] now) (\<lambda>binance.
     expect (book_from [(''0.0315'', ''1.0''), (''0.0313'', ''1.0'')]
                       [(''0.0317'', ''1.0''), (''0.0319'', ''1.0'')] now) (\<lambda>bitstamp.
     expect (merge (bt_collect [(Binance, binance), (Bitstamp, bitstamp)])) (\<lambda>summary.
       list_all2 feq (map lv_price (sm_bids summary))
         [0x3fa020c49ba5e354, 0x3fa013a92a305532, 0x3fa0068db8bac711, 0x3f9ff2e48e8a71de]
       \<and> list_all2 feq (map lv_price (sm_asks summary))
         [0x3fa02de00d1b7176, 0x3fa03afb7e90ff97, 0x3fa04816f0068db9, 0x3fa05532617c1bda]
       \<and> flt (f64_abs (fsub (sm_spread summary) (fsub 0x3fa02de00d1b7176 0x3fa020c49ba5e354)))
           0x3d719799812dea11)))"

definition equal_price_and_amount_across_venues_resolves_deterministically :: "instant \<Rightarrow> bool" where
  "equal_price_and_amount_across_venues_resolves_deterministically now \<longleftrightarrow>
     expect (book_from [(''0.0314'', ''1.0'')] [(''0.0316'', ''1.0'')] now) (\<lambda>binance.
     expect (book_from [(''0.0314'', ''1.0'')] [(''0.0316'', ''1.0'')] now) (\<lambda>bitstamp.
     expect (merge (bt_collect [(Binance, binance), (Bitstamp, bitstamp)])) (\<lambda>summary.
       map lv_exchange (take 1 (sm_bids summary)) = [''binance'']
       \<and> map lv_exchange (take 1 (sm_asks summary)) = [''binance''])))"

definition crossed_book_produces_negative_spread_without_panicking :: "instant \<Rightarrow> bool" where
  "crossed_book_produces_negative_spread_without_panicking now \<longleftrightarrow>
     expect (book_from [(''0.0320'', ''1.0'')] [(''0.0330'', ''1.0'')] now) (\<lambda>binance.
     expect (book_from [(''0.0310'', ''1.0'')] [(''0.0315'', ''1.0'')] now) (\<lambda>bitstamp.
     expect (merge (bt_collect [(Binance, binance), (Bitstamp, bitstamp)])) (\<lambda>summary.
       flt (sm_spread summary) (f64_zero False))))"

definition single_venue_still_merges :: "instant \<Rightarrow> bool" where
  "single_venue_still_merges now \<longleftrightarrow>
     expect (book_from [(''0.0314'', ''1.0'')] [(''0.0316'', ''1.0'')] now) (\<lambda>binance.
     expect (merge (bt_collect [(Binance, binance)])) (\<lambda>summary.
       length (sm_bids summary) = 1 \<and> length (sm_asks summary) = 1
       \<and> flt (f64_abs (fsub (sm_spread summary) (fsub 0x3fa02de00d1b7176 0x3fa013a92a305532)))
           0x3d719799812dea11))"

definition no_venues_returns_none :: bool where
  "no_venues_returns_none \<longleftrightarrow> merge bt_empty = None"

definition six_levels_returns_six_not_padded_to_ten :: "instant \<Rightarrow> bool" where
  "six_levels_returns_six_not_padded_to_ten now \<longleftrightarrow>
     expect (book_from (map (\<lambda>_. (''0.0314'', ''1.0'')) [0 ..< 6]) (map (\<lambda>_. (''0.0316'', ''1.0'')) [0 ..< 6]) now)
       (\<lambda>binance. expect (merge (bt_collect [(Binance, binance)])) (\<lambda>summary.
          length (sm_bids summary) = 6 \<and> length (sm_asks summary) = 6))"

definition merge_tests :: "instant \<Rightarrow> bool list" where
  "merge_tests now = [ask_prefers_lower_price_bid_prefers_higher,
     equal_price_prefers_larger_amount_on_both_sides,
     two_books_merge_into_correct_top_ten_and_spread now,
     equal_price_and_amount_across_venues_resolves_deterministically now,
     crossed_book_produces_negative_spread_without_panicking now, single_venue_still_merges now,
     no_venues_returns_none, six_levels_returns_six_not_padded_to_ten now]"

lemma merge_tests_pass:
  "ask_prefers_lower_price_bid_prefers_higher" "equal_price_prefers_larger_amount_on_both_sides"
  "equal_price_and_amount_across_venues_resolves_deterministically now"
  "crossed_book_produces_negative_spread_without_panicking now"
  "no_venues_returns_none" "six_levels_returns_six_not_padded_to_ten now"
  by code_simp+

lemma merge_spread_tests_pass:
  "two_books_merge_into_correct_top_ten_and_spread now" "single_venue_still_merges now"
  by code_simp+

section \<open>\<open>src/aggregator.rs\<close>\<close>

definition empty_book :: "instant \<Rightarrow> instant \<Rightarrow> book option" where
  "empty_book parse_started parsed = map_option (\<lambda>b. b\<lparr>parse_started_at := parse_started, parsed_at := parsed\<rparr>)
     (book_from [(''1.0'', ''1.0'')] [(''2.0'', ''1.0'')] parsed)"

definition stale_venue_excluded_from_merge :: "instant \<Rightarrow> bool" where
  "stale_venue_excluded_from_merge now \<longleftrightarrow>
     expect (empty_book now now) (\<lambda>b.
       (let venues = bt_insert Binance \<lparr>vs_book = b, vs_last_update = now - from_secs 2\<rparr> bt_empty
        in case fresh_venues venues now of Panic \<Rightarrow> False | Done fresh \<Rightarrow> bt_get fresh Binance = None))"

definition fresh_venue_included :: "instant \<Rightarrow> bool" where
  "fresh_venue_included now \<longleftrightarrow>
     expect (empty_book now now) (\<lambda>b.
       (let venues = bt_insert Binance \<lparr>vs_book = b, vs_last_update = now - from_secs 1\<rparr> bt_empty
        in case fresh_venues venues now of Panic \<Rightarrow> False | Done fresh \<Rightarrow> bt_get fresh Binance \<noteq> None))"

definition empty_map_past_grace_exits :: "instant \<Rightarrow> bool" where
  "empty_map_past_grace_exits started_at \<longleftrightarrow>
     (let now = started_at + GRACE + from_secs 1 in past_grace started_at now True)"

definition exchanges_in :: "summary \<Rightarrow> string set" where
  "exchanges_in s = set (map lv_exchange (sm_bids s @ sm_asks s))"

text \<open>What \<open>fresh_venues\<close> and \<open>merge\<close> give, None for a panic or no summary.\<close>

definition merge_fresh :: "(venue, venue_state) btree \<Rightarrow> instant \<Rightarrow> summary option" where
  "merge_fresh venues now = (case fresh_venues venues now of Panic \<Rightarrow> None | Done fresh \<Rightarrow> merge fresh)"

definition a_venue_going_stale_narrows_the_published_summary :: "instant \<Rightarrow> bool" where
  "a_venue_going_stale_narrows_the_published_summary now0 \<longleftrightarrow>
     expect (empty_book now0 now0) (\<lambda>b.
       (let now1 = now0 + from_millis 1600;
            venues = bt_insert Binance \<lparr>vs_book = b, vs_last_update = now0\<rparr> bt_empty;
            venues = bt_insert Bitstamp \<lparr>vs_book = b, vs_last_update = now0\<rparr> venues
        in expect (merge_fresh venues now0) (\<lambda>first.
             ''binance'' \<in> exchanges_in first \<and> ''bitstamp'' \<in> exchanges_in first)
           \<and> expect (merge_fresh (bt_insert Bitstamp \<lparr>vs_book = b, vs_last_update = now1\<rparr> venues) now1) (\<lambda>second.
             exchanges_in second = {''bitstamp''})))"

text \<open>The clock is read twice more when a summary is sent.\<close>

definition a_published_book_records_both_parse_and_merge_publish_samples ::
    "'h histogram_ops \<Rightarrow> ('h \<Rightarrow> nat) \<Rightarrow> instant \<Rightarrow> bool" where
  "a_published_book_records_both_parse_and_merge_publish_samples ops len now \<longleftrightarrow>
     expect (empty_book (now - 37000) now) (\<lambda>b.
       (case record_and_publish ops (aggregator_new ops) Binance b (now, now, now) of
          Panic \<Rightarrow> False
        | Done (ag, sent) \<Rightarrow>
            len (ag_parse_histogram ag) = 1 \<and> len (ag_merge_publish_histogram ag) = 1
            \<and> len (ag_total_histogram ag) = 1 \<and> ag_update_count ag = 1 \<and> ag_duplicate_count ag = 0
            \<and> sent \<noteq> None))"

definition a_histogram_reset_after_report_excludes_prior_samples ::
    "'h histogram_ops \<Rightarrow> ('h \<Rightarrow> nat) \<Rightarrow> instant \<Rightarrow> bool" where
  "a_histogram_reset_after_report_excludes_prior_samples ops len now \<longleftrightarrow>
     expect (empty_book (now - 37000) now) (\<lambda>first_book.
       (case record_and_publish ops (aggregator_new ops) Binance first_book (now, now, now) of
          Panic \<Rightarrow> False
        | Done (ag, _) \<Rightarrow> len (ag_parse_histogram ag) = 1
            \<and> (let (ag, _) = log_report ops ag 0 REPORT_INTERVAL; now2 = now + from_secs 1
               in len (ag_parse_histogram ag) = 0
                  \<and> expect (empty_book (now2 - from_millis 5) now2) (\<lambda>second_book.
                      (case record_and_publish ops ag Binance second_book (now2, now2, now2) of
                         Panic \<Rightarrow> False
                       | Done (ag, _) \<Rightarrow> len (ag_parse_histogram ag) = 1
                           \<and> flt 0x40af400000000000 (us (h_quantile ops 0x3fe0000000000000 (ag_parse_histogram ag))))))))"

definition a_stale_book_records_no_merge_publish_or_total_sample ::
    "'h histogram_ops \<Rightarrow> ('h \<Rightarrow> nat) \<Rightarrow> instant \<Rightarrow> bool" where
  "a_stale_book_records_no_merge_publish_or_total_sample ops len now \<longleftrightarrow>
     expect (empty_book now now) (\<lambda>b.
       (let ag = (aggregator_new ops)\<lparr>ag_venues :=
              bt_insert Bitstamp \<lparr>vs_book = b, vs_last_update = now - from_secs 9\<rparr> bt_empty\<rparr>;
            unpublishable_book = \<lparr>bids = [], asks = [], last_update_id = 1,
              parse_started_at = now - 50000, parsed_at = now\<rparr>
        in case record_and_publish ops ag Binance unpublishable_book (now, now, now) of
             Panic \<Rightarrow> False
           | Done (ag, _) \<Rightarrow>
               len (ag_parse_histogram ag) = 1 \<and> len (ag_merge_publish_histogram ag) = 0
               \<and> len (ag_total_histogram ag) = 0 \<and> ag_update_count ag = 0 \<and> ag_duplicate_count ag = 0))"

definition an_unchanged_tick_is_not_resent_down_the_watch_channel :: "'h histogram_ops \<Rightarrow> instant \<Rightarrow> bool" where
  "an_unchanged_tick_is_not_resent_down_the_watch_channel ops now \<longleftrightarrow>
     expect (empty_book (now - 10000) now) (\<lambda>first_book.
       (case record_and_publish ops (aggregator_new ops) Binance first_book (now, now, now) of
          Panic \<Rightarrow> False
        | Done (ag, sent) \<Rightarrow> sent \<noteq> None
            \<and> (let now2 = now + from_millis 100
               in expect (empty_book (now2 - 10000) now2) (\<lambda>second_book.
                    (case record_and_publish ops ag Binance second_book (now2, now2, now2) of
                       Panic \<Rightarrow> False
                     | Done (ag, sent) \<Rightarrow>
                         ag_duplicate_count ag = 1 \<and> ag_update_count ag = 1 \<and> sent = None)))))"

definition two_structurally_identical_summaries_compare_equal :: "instant \<Rightarrow> bool" where
  "two_structurally_identical_summaries_compare_equal now \<longleftrightarrow>
     expect (empty_book now now) (\<lambda>b.
       (let venues = bt_collect [(Binance, b), (Bitstamp, b)]
        in expect (merge venues) (\<lambda>first. expect (merge venues) (\<lambda>second. summary_eq first second))))"

definition a_changed_book_produces_a_summary_that_compares_unequal :: "instant \<Rightarrow> bool" where
  "a_changed_book_produces_a_summary_that_compares_unequal now \<longleftrightarrow>
     expect (empty_book now now) (\<lambda>b.
     expect (merge (bt_collect [(Binance, b), (Bitstamp, b)])) (\<lambda>before.
     expect (price_parse ''1.5'') (\<lambda>p.
       (let changed_binance = b\<lparr>bids := map (\<lambda>l. (p, snd l)) (take 1 (bids b)) @ drop 1 (bids b)\<rparr>
        in expect (merge (bt_collect [(Binance, changed_binance), (Bitstamp, b)])) (\<lambda>after.
             \<not> summary_eq before after)))))"

lemma fresh_tests_pass:
  "stale_venue_excluded_from_merge (from_secs 60)" "fresh_venue_included (from_secs 60)"
  by code_simp+

lemma grace_test_pass: "empty_map_past_grace_exits started_at"
  by (simp add: empty_map_past_grace_exits_def past_grace_def duration_since_def from_secs_def)

lemma narrows_test_pass: "a_venue_going_stale_narrows_the_published_summary (from_secs 60)"
  by code_simp

lemma publish_tests_pass:
  "a_published_book_records_both_parse_and_merge_publish_samples sample_ops length (from_secs 60)"
  "a_stale_book_records_no_merge_publish_or_total_sample sample_ops length (from_secs 60)"
  "an_unchanged_tick_is_not_resent_down_the_watch_channel sample_ops (from_secs 60)"
  by code_simp+

lemma equal_tests_pass:
  "two_structurally_identical_summaries_compare_equal now"
  "a_changed_book_produces_a_summary_that_compares_unequal now"
  by code_simp+

lemma sample_ops_quantile: "h_quantile sample_ops q [x] = x"
  by (simp add: sample_ops_def)

text \<open>The report's numbers play no part in the reset.\<close>

lemma reset_test_pass:
  "a_histogram_reset_after_report_excludes_prior_samples sample_ops length (from_secs 60)"
proof -
  obtain b where b: "empty_book x y = Some (b\<lparr>parse_started_at := x, parsed_at := y\<rparr>)" for x y
  proof -
    have "book_from [(''1.0'', ''1.0'')] [(''2.0'', ''1.0'')] y =
        Some \<lparr>bids = [(Price 0x3ff0000000000000, Amount 0x3ff0000000000000)],
          asks = [(Price 0x4000000000000000, Amount 0x3ff0000000000000)], last_update_id = 1,
          parse_started_at = y, parsed_at = y\<rparr>" for y by code_simp
    then show ?thesis by (intro that [of "\<lparr>bids = [(Price 0x3ff0000000000000, Amount 0x3ff0000000000000)],
          asks = [(Price 0x4000000000000000, Amount 0x3ff0000000000000)], last_update_id = 1,
          parse_started_at = 0, parsed_at = 0\<rparr>"]) (simp add: empty_book_def)
  qed
  have parse: "\<exists>ag' sent. record_and_publish sample_ops ag Binance (b\<lparr>parse_started_at := t - d, parsed_at := t\<rparr>) (t, t, t)
        = Done (ag', sent) \<and> bt_sorted (ag_venues ag') \<and> ag_parse_histogram ag' = word_of_nat d # ag_parse_histogram ag"
    if sorted: "bt_sorted (ag_venues ag)" "d \<le> t" for ag t d
  proof -
    obtain ag' sent where step: "record_and_publish sample_ops ag Binance (b\<lparr>parse_started_at := t - d, parsed_at := t\<rparr>)
        (t, t, t) = Done (ag', sent)" "bt_sorted (ag_venues ag')"
      using record_and_publish_done [OF sorted(1)] by metis
    with record_and_publish_venues(2) [OF sorted(1) step(1)] sorted(2) show ?thesis
      by (simp add: record_duration_def sample_ops_def duration_since_def)
  qed
  have new: "bt_sorted (ag_venues (aggregator_new sample_ops))" "ag_parse_histogram (aggregator_new sample_ops) = []"
    by (simp_all add: aggregator_new_def bt.invar_empty sample_ops_def)
  obtain ag1 s1 where one: "record_and_publish sample_ops (aggregator_new sample_ops) Binance
      (b\<lparr>parse_started_at := from_secs 60 - 37000, parsed_at := from_secs 60\<rparr>)
      (from_secs 60, from_secs 60, from_secs 60) = Done (ag1, s1)"
    "bt_sorted (ag_venues ag1)" "length (ag_parse_histogram ag1) = 1"
    using parse [OF new(1), of 37000 "from_secs 60"] new(2) by (auto simp: from_secs_def)
  obtain ag2 r where rep: "log_report sample_ops ag1 0 REPORT_INTERVAL = (ag2, r)" by fastforce
  then have ag2: "ag2 = fst (log_report sample_ops ag1 0 REPORT_INTERVAL)" by simp
  then have two: "bt_sorted (ag_venues ag2)" "ag_parse_histogram ag2 = []"
    using one(2) by (simp_all add: sample_ops_def)
  obtain ag3 s3 where three: "record_and_publish sample_ops ag2 Binance
      (b\<lparr>parse_started_at := from_secs 60 + from_secs 1 - from_millis 5, parsed_at := from_secs 60 + from_secs 1\<rparr>)
      (from_secs 60 + from_secs 1, from_secs 60 + from_secs 1, from_secs 60 + from_secs 1) = Done (ag3, s3)"
    "ag_parse_histogram ag3 = [5000000]"
    using parse [OF two(1), of "from_millis 5" "from_secs 60 + from_secs 1"] two(2)
    by (auto simp: from_secs_def from_millis_def)
  have "flt 0x40af400000000000 (us 5000000)" by code_simp
  then show ?thesis
    by (simp add: a_histogram_reset_after_report_excludes_prior_samples_def b one rep two three Let_def
        sample_ops_quantile del: One_nat_def)
qed

section \<open>Properties\<close>

text \<open>The tests of one file, in the file's order.\<close>

definition aggregator_tests :: "'h histogram_ops \<Rightarrow> ('h \<Rightarrow> nat) \<Rightarrow> instant \<Rightarrow> bool list" where
  "aggregator_tests ops len now = [stale_venue_excluded_from_merge now, fresh_venue_included now,
     empty_map_past_grace_exits now, a_venue_going_stale_narrows_the_published_summary now,
     a_published_book_records_both_parse_and_merge_publish_samples ops len now,
     a_histogram_reset_after_report_excludes_prior_samples ops len now,
     a_stale_book_records_no_merge_publish_or_total_sample ops len now,
     an_unchanged_tick_is_not_resent_down_the_watch_channel ops now,
     two_structurally_identical_summaries_compare_equal now,
     a_changed_book_produces_a_summary_that_compares_unequal now]"

text \<open>
  The model passes the unit tests that stand beside the price type, the venues, the
  configuration, the proxy address, the reconnect policy, the merge and the aggregator; those of
  the three exchanges follow in the theories of their feeds' tests.
\<close>

lemma unit_tests_pass:
  "list_all id (model_tests @ exchange_tests @ proxy_tests @ config_tests var @ feed_tests now
     [f64_half, 0x3fe8000000000000, f64_one, 0x3ff4000000000000]
     @ merge_tests now @ aggregator_tests sample_ops length (from_secs 60))"
  using model_tests_pass exchange_tests_pass proxy_tests_pass config_tests_pass feed_tests_pass
    merge_tests_pass merge_spread_tests_pass fresh_tests_pass grace_test_pass narrows_test_pass
    publish_tests_pass reset_test_pass equal_tests_pass
  by (simp add: config_tests_def feed_tests_def merge_tests_def aggregator_tests_def)

end
