(* ===== verification/Tests_Feeds.thy ===== *)
theory Tests_Feeds
  imports Tests_Core Binance_Feed Bitstamp_Feed
begin

text \<open>
  The unit tests of \<open>src/exchange/binance.rs\<close> and \<open>src/exchange/bitstamp.rs\<close>, run on the model,
  their captured messages included. The deserializer \<open>de\<close> is a parameter, of which the lemmas
  assume what \<open>serde_json\<close> makes of the text in question.
\<close>

definition level_is :: "level \<Rightarrow> string \<Rightarrow> string \<Rightarrow> bool" where
  "level_is l p a \<longleftrightarrow> expect (price_parse p) (price_eq (fst l)) \<and> expect (amount_parse a) (amount_eq (snd l))"

definition MALFORMED_JSON :: string where
  "MALFORMED_JSON = ''not valid json {{{''"

section \<open>\<open>src/exchange/binance.rs\<close>\<close>

definition DEPTH20_FIXTURE :: string where
  \<open>DEPTH20_FIXTURE = ''{"lastUpdateId":9118724657,"bids":[["0.03144000","36.35500000"],["0.03143000","59.83450000"],["0.03142000","141.81680000"],["0.03141000","106.58830000"],["0.03140000","114.49470000"],["0.03139000","96.53310000"],["0.03138000","86.20680000"],["0.03137000","126.79540000"],["0.03136000","128.94000000"],["0.03135000","135.11290000"],["0.03134000","130.71860000"],["0.03133000","127.34300000"],["0.03132000","3.88700000"],["0.03131000","4.52020000"],["0.03130000","4.02660000"],["0.03129000","3.94970000"],["0.03128000","19.31970000"],["0.03127000","4.04340000"],["0.03126000","3.56970000"],["0.03125000","4.47450000"]],"asks":[["0.03145000","37.64560000"],["0.03146000","36.96670000"],["0.03147000","34.83630000"],["0.03148000","68.41130000"],["0.03149000","163.81090000"],["0.03150000","138.90970000"],["0.03151000","119.96530000"],["0.03152000","113.25420000"],["0.03153000","95.42750000"],["0.03154000","86.32880000"],["0.03155000","83.70930000"],["0.03156000","122.40940000"],["0.03157000","0.35420000"],["0.03158000","0.40210000"],["0.03159000","0.81870000"],["0.03160000","0.37230000"],["0.03161000","0.77060000"],["0.03162000","0.82900000"],["0.03163000","17.03620000"],["0.03164000","0.82870000"]]}''\<close>

definition BINANCE_BAD_BID :: string where
  \<open>BINANCE_BAD_BID = ''{"lastUpdateId":1,"bids":[["0.03144000","36.35500000"],["not_a_number","1.00000000"]],"asks":[["0.03145000","37.64560000"]]}''\<close>

definition BINANCE_NO_BIDS :: string where
  \<open>BINANCE_NO_BIDS = ''{"lastUpdateId":1,"bids":[],"asks":[["0.03145000","37.64560000"]]}''\<close>

definition SERVER_SHUTDOWN :: string where
  \<open>SERVER_SHUTDOWN = ''{"e":"serverShutdown","E":1234567890}''\<close>

text \<open>The messages decoded.\<close>

definition depth20_fixture :: depth20 where
  "depth20_fixture = \<lparr>d20_last_update_id = 9118724657,
     d20_bids = [(''0.03144000'', ''36.35500000''), (''0.03143000'', ''59.83450000''),
                 (''0.03142000'', ''141.81680000''), (''0.03141000'', ''106.58830000''),
                 (''0.03140000'', ''114.49470000''), (''0.03139000'', ''96.53310000''),
                 (''0.03138000'', ''86.20680000''), (''0.03137000'', ''126.79540000''),
                 (''0.03136000'', ''128.94000000''), (''0.03135000'', ''135.11290000''),
                 (''0.03134000'', ''130.71860000''), (''0.03133000'', ''127.34300000''),
                 (''0.03132000'', ''3.88700000''), (''0.03131000'', ''4.52020000''),
                 (''0.03130000'', ''4.02660000''), (''0.03129000'', ''3.94970000''),
                 (''0.03128000'', ''19.31970000''), (''0.03127000'', ''4.04340000''),
                 (''0.03126000'', ''3.56970000''), (''0.03125000'', ''4.47450000'')],
     d20_asks = [(''0.03145000'', ''37.64560000''), (''0.03146000'', ''36.96670000''),
                 (''0.03147000'', ''34.83630000''), (''0.03148000'', ''68.41130000''),
                 (''0.03149000'', ''163.81090000''), (''0.03150000'', ''138.90970000''),
                 (''0.03151000'', ''119.96530000''), (''0.03152000'', ''113.25420000''),
                 (''0.03153000'', ''95.42750000''), (''0.03154000'', ''86.32880000''),
                 (''0.03155000'', ''83.70930000''), (''0.03156000'', ''122.40940000''),
                 (''0.03157000'', ''0.35420000''), (''0.03158000'', ''0.40210000''),
                 (''0.03159000'', ''0.81870000''), (''0.03160000'', ''0.37230000''),
                 (''0.03161000'', ''0.77060000''), (''0.03162000'', ''0.82900000''),
                 (''0.03163000'', ''17.03620000''), (''0.03164000'', ''0.82870000'')]\<rparr>"

definition binance_bad_bid :: depth20 where
  "binance_bad_bid = \<lparr>d20_last_update_id = 1,
     d20_bids = [(''0.03144000'', ''36.35500000''), (''not_a_number'', ''1.00000000'')],
     d20_asks = [(''0.03145000'', ''37.64560000'')]\<rparr>"

definition binance_no_bids :: depth20 where
  "binance_no_bids = \<lparr>d20_last_update_id = 1,
     d20_bids = [],
     d20_asks = [(''0.03145000'', ''37.64560000'')]\<rparr>"

definition parses_depth20_into_twenty_bids_and_twenty_asks_with_correct_values ::
    "(string \<Rightarrow> depth20 option) \<Rightarrow> stamps \<Rightarrow> bool" where
  "parses_depth20_into_twenty_bids_and_twenty_asks_with_correct_values de t \<longleftrightarrow>
     expect (binance_parse de DEPTH20_FIXTURE t) (\<lambda>book.
       length (bids book) = 20 \<and> length (asks book) = 20 \<and> last_update_id book = 9118724657
       \<and> level_is (bids book ! 0) ''0.03144000'' ''36.35500000''
       \<and> level_is (asks book ! 0) ''0.03145000'' ''37.64560000''
       \<and> level_is (bids book ! 19) ''0.03125000'' ''4.47450000''
       \<and> level_is (asks book ! 19) ''0.03164000'' ''0.82870000'')"

definition server_shutdown_message_parses_to_none_without_panicking ::
    "(string \<Rightarrow> depth20 option) \<Rightarrow> stamps \<Rightarrow> bool" where
  "server_shutdown_message_parses_to_none_without_panicking de t \<longleftrightarrow> binance_parse de SERVER_SHUTDOWN t = None"

definition binance_malformed_json_parses_to_none_without_panicking ::
    "(string \<Rightarrow> depth20 option) \<Rightarrow> stamps \<Rightarrow> bool" where
  "binance_malformed_json_parses_to_none_without_panicking de t \<longleftrightarrow> binance_parse de MALFORMED_JSON t = None"

definition binance_subscribe_message_is_none :: bool where
  "binance_subscribe_message_is_none \<longleftrightarrow> binance_subscribe_message ''ethbtc'' = None"

definition binance_one_malformed_bid_level_rejects_the_whole_message ::
    "(string \<Rightarrow> depth20 option) \<Rightarrow> stamps \<Rightarrow> bool" where
  "binance_one_malformed_bid_level_rejects_the_whole_message de t \<longleftrightarrow> binance_parse de BINANCE_BAD_BID t = None"

definition binance_empty_bids_side_parses_without_panicking ::
    "(string \<Rightarrow> depth20 option) \<Rightarrow> stamps \<Rightarrow> bool" where
  "binance_empty_bids_side_parses_without_panicking de t \<longleftrightarrow>
     expect (binance_parse de BINANCE_NO_BIDS t) (\<lambda>book. bids book = [] \<and> length (asks book) = 1)"

lemma depth20_test_passes:
  assumes "de DEPTH20_FIXTURE = Some depth20_fixture"
  shows "parses_depth20_into_twenty_bids_and_twenty_asks_with_correct_values de t"
  unfolding parses_depth20_into_twenty_bids_and_twenty_asks_with_correct_values_def binance_parse_def
    assms option.case
  by code_simp

lemma binance_level_tests_pass:
  assumes "de BINANCE_BAD_BID = Some binance_bad_bid" "de BINANCE_NO_BIDS = Some binance_no_bids"
  shows "binance_one_malformed_bid_level_rejects_the_whole_message de t"
    "binance_empty_bids_side_parses_without_panicking de t"
  unfolding binance_one_malformed_bid_level_rejects_the_whole_message_def
    binance_empty_bids_side_parses_without_panicking_def binance_parse_def assms option.case
  by code_simp+

lemma binance_undecoded_tests_pass:
  assumes "de SERVER_SHUTDOWN = None" "de MALFORMED_JSON = None"
  shows "server_shutdown_message_parses_to_none_without_panicking de t"
    "binance_malformed_json_parses_to_none_without_panicking de t" "binance_subscribe_message_is_none"
  using assms
  by (simp_all add: server_shutdown_message_parses_to_none_without_panicking_def
      binance_malformed_json_parses_to_none_without_panicking_def binance_parse_def
      binance_subscribe_message_is_none_def binance_subscribe_message_def)

section \<open>\<open>src/exchange/bitstamp.rs\<close>\<close>

definition DATA_FIXTURE :: string where
  \<open>DATA_FIXTURE = ''{"data":{"timestamp":"1787511693","microtimestamp":"1787511693313188","bids":[["0.03163789","3.42951262"],["0.03163505","0.61258313"],["0.03162919","1.02115457"],["0.03162384","0.04990000"],["0.03162273","0.34284793"]],"asks":[["0.03164587","0.61236387"],["0.03164684","3.42951262"],["0.03165086","1.02045379"],["0.03166236","0.04990000"],["0.03166726","2.04002053"]]},"channel":"order_book_ethbtc","event":"data"}''\<close>

definition BITSTAMP_BAD_BID :: string where
  \<open>BITSTAMP_BAD_BID = ''{"data":{"timestamp":"1","microtimestamp":"1","bids":[["0.03163789","3.42951262"],["not_a_number","1.00000000"]],"asks":[["0.03164587","0.61236387"]]},"channel":"order_book_ethbtc","event":"data"}''\<close>

definition BITSTAMP_NO_BIDS :: string where
  \<open>BITSTAMP_NO_BIDS = ''{"data":{"timestamp":"1","microtimestamp":"1","bids":[],"asks":[["0.03164587","0.61236387"]]},"channel":"order_book_ethbtc","event":"data"}''\<close>

definition SUBSCRIPTION_SUCCEEDED :: string where
  \<open>SUBSCRIPTION_SUCCEEDED = ''{"event":"bts:subscription_succeeded","channel":"order_book_ethbtc","data":{}}''\<close>

definition REQUEST_RECONNECT :: string where
  \<open>REQUEST_RECONNECT = ''{"event":"bts:request_reconnect","channel":"","data":{}}''\<close>

definition BTS_ERROR :: string where
  \<open>BTS_ERROR = ''{"event":"bts:error","channel":"","data":{"code":null,"message":"bad subscription"}}''\<close>

definition data_fixture :: envelope where
  "data_fixture = \<lparr>env_event = ''data'', env_data = Some \<lparr>
     bd_bids = [(''0.03163789'', ''3.42951262''), (''0.03163505'', ''0.61258313''),
                (''0.03162919'', ''1.02115457''), (''0.03162384'', ''0.04990000''),
                (''0.03162273'', ''0.34284793'')],
     bd_asks = [(''0.03164587'', ''0.61236387''), (''0.03164684'', ''3.42951262''),
                (''0.03165086'', ''1.02045379''), (''0.03166236'', ''0.04990000''),
                (''0.03166726'', ''2.04002053'')]\<rparr>\<rparr>"

definition bitstamp_bad_bid :: envelope where
  "bitstamp_bad_bid = \<lparr>env_event = ''data'', env_data = Some \<lparr>
     bd_bids = [(''0.03163789'', ''3.42951262''), (''not_a_number'', ''1.00000000'')],
     bd_asks = [(''0.03164587'', ''0.61236387'')]\<rparr>\<rparr>"

definition bitstamp_no_bids :: envelope where
  "bitstamp_no_bids = \<lparr>env_event = ''data'', env_data = Some \<lparr>
     bd_bids = [],
     bd_asks = [(''0.03164587'', ''0.61236387'')]\<rparr>\<rparr>"

definition bitstamp_data_message_parses_to_the_right_levels_and_prices ::
    "(string \<Rightarrow> envelope option) \<Rightarrow> stamps \<Rightarrow> bool" where
  "bitstamp_data_message_parses_to_the_right_levels_and_prices de t \<longleftrightarrow>
     expect (bitstamp_parse de DATA_FIXTURE t) (\<lambda>book.
       length (bids book) = 5 \<and> length (asks book) = 5
       \<and> level_is (bids book ! 0) ''0.03163789'' ''3.42951262''
       \<and> level_is (asks book ! 0) ''0.03164587'' ''0.61236387'')"

definition bts_subscription_succeeded_parses_to_none_without_panicking ::
    "(string \<Rightarrow> envelope option) \<Rightarrow> stamps \<Rightarrow> bool" where
  "bts_subscription_succeeded_parses_to_none_without_panicking de t \<longleftrightarrow>
     bitstamp_parse de SUBSCRIPTION_SUCCEEDED t = None"

definition bts_request_reconnect_parses_to_none_without_panicking ::
    "(string \<Rightarrow> envelope option) \<Rightarrow> stamps \<Rightarrow> bool" where
  "bts_request_reconnect_parses_to_none_without_panicking de t \<longleftrightarrow>
     bitstamp_parse de REQUEST_RECONNECT t = None"

definition bts_error_parses_to_none_without_panicking ::
    "(string \<Rightarrow> envelope option) \<Rightarrow> stamps \<Rightarrow> bool" where
  "bts_error_parses_to_none_without_panicking de t \<longleftrightarrow>
     bitstamp_parse de BTS_ERROR t = None"

definition bitstamp_malformed_json_parses_to_none_without_panicking ::
    "(string \<Rightarrow> envelope option) \<Rightarrow> stamps \<Rightarrow> bool" where
  "bitstamp_malformed_json_parses_to_none_without_panicking de t \<longleftrightarrow>
     bitstamp_parse de MALFORMED_JSON t = None"

definition bitstamp_one_malformed_bid_level_rejects_the_whole_message ::
    "(string \<Rightarrow> envelope option) \<Rightarrow> stamps \<Rightarrow> bool" where
  "bitstamp_one_malformed_bid_level_rejects_the_whole_message de t \<longleftrightarrow>
     bitstamp_parse de BITSTAMP_BAD_BID t = None"

definition bitstamp_subscribe_message_contains_the_configured_pairs_channel_name :: bool where
  "bitstamp_subscribe_message_contains_the_configured_pairs_channel_name \<longleftrightarrow>
     expect (bitstamp_subscribe_message ''ethbtc'') (\<lambda>msg. contains ''order_book_ethbtc'' msg)"

definition bitstamp_empty_bids_side_parses_without_panicking ::
    "(string \<Rightarrow> envelope option) \<Rightarrow> stamps \<Rightarrow> bool" where
  "bitstamp_empty_bids_side_parses_without_panicking de t \<longleftrightarrow>
     expect (bitstamp_parse de BITSTAMP_NO_BIDS t) (\<lambda>book. bids book = [] \<and> length (asks book) = 1)"

lemma bitstamp_data_test_passes:
  assumes "de DATA_FIXTURE = Some data_fixture"
  shows "bitstamp_data_message_parses_to_the_right_levels_and_prices de t"
  unfolding bitstamp_data_message_parses_to_the_right_levels_and_prices_def bitstamp_parse_def
    assms option.case
  by code_simp

lemma bitstamp_level_tests_pass:
  assumes "de BITSTAMP_BAD_BID = Some bitstamp_bad_bid" "de BITSTAMP_NO_BIDS = Some bitstamp_no_bids"
  shows "bitstamp_one_malformed_bid_level_rejects_the_whole_message de t"
    "bitstamp_empty_bids_side_parses_without_panicking de t"
  unfolding bitstamp_one_malformed_bid_level_rejects_the_whole_message_def
    bitstamp_empty_bids_side_parses_without_panicking_def bitstamp_parse_def assms option.case
  by code_simp+

text \<open>Whether \<open>data\<close> decodes or not, a control event is no book.\<close>

lemma bitstamp_control_tests_pass:
  assumes "\<And>e. de SUBSCRIPTION_SUCCEEDED = Some e \<Longrightarrow> env_event e = ''bts:subscription_succeeded''"
    "\<And>e. de REQUEST_RECONNECT = Some e \<Longrightarrow> env_event e = ''bts:request_reconnect''"
    "\<And>e. de BTS_ERROR = Some e \<Longrightarrow> env_event e = ''bts:error''" "de MALFORMED_JSON = None"
  shows "bts_subscription_succeeded_parses_to_none_without_panicking de t"
    "bts_request_reconnect_parses_to_none_without_panicking de t"
    "bts_error_parses_to_none_without_panicking de t"
    "bitstamp_malformed_json_parses_to_none_without_panicking de t"
  using assms
  by (auto simp: bts_subscription_succeeded_parses_to_none_without_panicking_def
      bts_request_reconnect_parses_to_none_without_panicking_def
      bts_error_parses_to_none_without_panicking_def
      bitstamp_malformed_json_parses_to_none_without_panicking_def bitstamp_parse_def split: option.split)

lemma bitstamp_subscribe_test_passes:
  "bitstamp_subscribe_message_contains_the_configured_pairs_channel_name"
  by code_simp

end
