(* ===== verification/Tests_Kraken.thy ===== *)
theory Tests_Kraken
  imports Tests_Feeds Kraken_Feed
begin

text \<open>
  The unit tests of \<open>src/exchange/kraken.rs\<close>, run on the model with the messages captured from
  the exchange. Of the parameters the lemmas assume what the libraries do: \<open>serde_json\<close> on these
  texts (numbers keep their digits, as \<open>RawValue\<close>), and \<open>crc32fast::hash\<close>, the CRC-32 of IEEE 802.3.
\<close>

unbundle bit_operations_syntax

section \<open>CRC-32\<close>

text \<open>Four bits at a time, least significant first, by the table of the reflected polynomial.\<close>

definition crc_table :: "int list" where
  "crc_table = [0x00000000, 0x1DB71064, 0x3B6E20C8, 0x26D930AC, 0x76DC4190, 0x6B6B51F4, 0x4DB26158, 0x5005713C,
     0xEDB88320, 0xF00F9344, 0xD6D6A3E8, 0xCB61B38C, 0x9B64C2B0, 0x86D3D2D4, 0xA00AE278, 0xBDBDF21C]"

definition crc_step :: "int \<Rightarrow> int" where
  "crc_step c = crc_table ! nat (c mod 16) XOR c div 16"

fun crc_bytes :: "int \<Rightarrow> string \<Rightarrow> int" where
  "crc_bytes c [] = c"
| "crc_bytes c (x # xs) = crc_bytes (crc_step (crc_step (c XOR of_char x))) xs"

definition crc32_ieee :: "string \<Rightarrow> u32" where
  "crc32_ieee s = word_of_int (crc_bytes 0xFFFFFFFF s XOR 0xFFFFFFFF)"

text \<open>The standard's check value.\<close>

lemma crc32_check: "crc32_ieee ''123456789'' = 0xCBF43926"
  by code_simp

section \<open>The captured messages\<close>

definition SNAPSHOT_FIXTURE :: string where
  \<open>SNAPSHOT_FIXTURE = ''{"channel":"book","type":"snapshot","data":[{"symbol":"ETH/BTC","bids":[{"price":0.031348,"qty":0.03740000},{"price":0.031347,"qty":2.87288049},{"price":0.031345,"qty":8.57986833},{"price":0.031344,"qty":14.40276069},{"price":0.031340,"qty":12.96065840},{"price":0.031339,"qty":13.19606540},{"price":0.031338,"qty":20.41389313},{"price":0.031336,"qty":0.03740000},{"price":0.031334,"qty":14.37158163},{"price":0.031332,"qty":14.40695990}],"asks":[{"price":0.031357,"qty":0.03740000},{"price":0.031358,"qty":2.87194815},{"price":0.031361,"qty":0.00767324},{"price":0.031362,"qty":4.27140781},{"price":0.031363,"qty":4.34586052},{"price":0.031364,"qty":27.28097668},{"price":0.031365,"qty":12.92325840},{"price":0.031366,"qty":4.14290322},{"price":0.031368,"qty":0.00738649},{"price":0.031370,"qty":0.03740000}],"checksum":3619791617,"timestamp":"2026-08-26T15:16:16.637831Z"}]}''\<close>

definition UPDATE_FIXTURE :: string where
  \<open>UPDATE_FIXTURE = ''{"channel":"book","type":"update","data":[{"symbol":"ETH/BTC","bids":[{"price":0.031347,"qty":0.00000000},{"price":0.031329,"qty":19.07893401}],"asks":[],"checksum":2505869009,"timestamp":"2026-08-26T15:16:16.730423Z"}]}''\<close>

definition STATUS_FIXTURE :: string where
  \<open>STATUS_FIXTURE = ''{"channel":"status","type":"update","data":[{"version":"2.0.10","system":"online","api_version":"v2","connection_id":12072546403441331453}]}''\<close>

definition HEARTBEAT_FIXTURE :: string where
  \<open>HEARTBEAT_FIXTURE = ''{"channel":"heartbeat"}''\<close>

definition SUBSCRIBE_ACK_SUCCESS_FIXTURE :: string where
  \<open>SUBSCRIBE_ACK_SUCCESS_FIXTURE = ''{"method":"subscribe","result":{"channel":"book","depth":10,"snapshot":true,"symbol":"ETH/BTC"},"success":true,"time_in":"2026-08-26T15:16:16.576099Z","time_out":"2026-08-26T15:16:16.576140Z"}''\<close>

definition SUBSCRIBE_ACK_FAILURE_FIXTURE :: string where
  \<open>SUBSCRIBE_ACK_FAILURE_FIXTURE = ''{"method":"subscribe","result":{"channel":"book","symbol":"NOT/REAL"},"success":false,"error":"Unknown symbol"}''\<close>

definition CORRUPTED :: string where
  \<open>CORRUPTED = ''{"channel":"book","type":"snapshot","data":[{"symbol":"ETH/BTC","bids":[{"price":0.031348,"qty":0.03740000},{"price":0.031347,"qty":2.87288049},{"price":0.031345,"qty":8.57986833},{"price":0.031344,"qty":14.40276069},{"price":0.031340,"qty":12.96065840},{"price":0.031339,"qty":13.19606540},{"price":0.031338,"qty":20.41389313},{"price":0.031336,"qty":0.03740000},{"price":0.031334,"qty":14.37158163},{"price":0.031332,"qty":14.40695990}],"asks":[{"price":0.031357,"qty":0.03740000},{"price":0.031358,"qty":2.87194815},{"price":0.031361,"qty":0.00767324},{"price":0.031362,"qty":4.27140781},{"price":0.031363,"qty":4.34586052},{"price":0.031364,"qty":27.28097668},{"price":0.031365,"qty":12.92325840},{"price":0.031366,"qty":4.14290322},{"price":0.031368,"qty":0.00738649},{"price":0.031370,"qty":0.03740000}],"checksum":3619791618,"timestamp":"2026-08-26T15:16:16.637831Z"}]}''\<close>

text \<open>The book messages decoded.\<close>

definition snapshot_fixture :: book_data where
  "snapshot_fixture = \<lparr>
     dt_bids = [\<lparr>wl_price = ''0.031348'', wl_qty = ''0.03740000''\<rparr>, \<lparr>wl_price = ''0.031347'', wl_qty = ''2.87288049''\<rparr>,
                \<lparr>wl_price = ''0.031345'', wl_qty = ''8.57986833''\<rparr>, \<lparr>wl_price = ''0.031344'', wl_qty = ''14.40276069''\<rparr>,
                \<lparr>wl_price = ''0.031340'', wl_qty = ''12.96065840''\<rparr>, \<lparr>wl_price = ''0.031339'', wl_qty = ''13.19606540''\<rparr>,
                \<lparr>wl_price = ''0.031338'', wl_qty = ''20.41389313''\<rparr>, \<lparr>wl_price = ''0.031336'', wl_qty = ''0.03740000''\<rparr>,
                \<lparr>wl_price = ''0.031334'', wl_qty = ''14.37158163''\<rparr>, \<lparr>wl_price = ''0.031332'', wl_qty = ''14.40695990''\<rparr>],
     dt_asks = [\<lparr>wl_price = ''0.031357'', wl_qty = ''0.03740000''\<rparr>, \<lparr>wl_price = ''0.031358'', wl_qty = ''2.87194815''\<rparr>,
                \<lparr>wl_price = ''0.031361'', wl_qty = ''0.00767324''\<rparr>, \<lparr>wl_price = ''0.031362'', wl_qty = ''4.27140781''\<rparr>,
                \<lparr>wl_price = ''0.031363'', wl_qty = ''4.34586052''\<rparr>, \<lparr>wl_price = ''0.031364'', wl_qty = ''27.28097668''\<rparr>,
                \<lparr>wl_price = ''0.031365'', wl_qty = ''12.92325840''\<rparr>, \<lparr>wl_price = ''0.031366'', wl_qty = ''4.14290322''\<rparr>,
                \<lparr>wl_price = ''0.031368'', wl_qty = ''0.00738649''\<rparr>, \<lparr>wl_price = ''0.031370'', wl_qty = ''0.03740000''\<rparr>],
     dt_checksum = 3619791617\<rparr>"

definition update_fixture :: book_data where
  "update_fixture = \<lparr>
     dt_bids = [\<lparr>wl_price = ''0.031347'', wl_qty = ''0.00000000''\<rparr>, \<lparr>wl_price = ''0.031329'', wl_qty = ''19.07893401''\<rparr>],
     dt_asks = [],
     dt_checksum = 2505869009\<rparr>"

definition book_peek :: peek_message where
  "book_peek = \<lparr>pk_channel = Some ''book'', pk_method = None\<rparr>"

definition decodes_captured :: "kraken_env \<Rightarrow> bool" where
  "decodes_captured env \<longleftrightarrow>
     list_all (\<lambda>raw. ke_peek env raw = Some book_peek) [SNAPSHOT_FIXTURE, UPDATE_FIXTURE, CORRUPTED]
     \<and> ke_message env SNAPSHOT_FIXTURE = Some \<lparr>bm_kind = ''snapshot'', bm_data = [snapshot_fixture]\<rparr>
     \<and> ke_message env CORRUPTED = Some \<lparr>bm_kind = ''snapshot'',
          bm_data = [snapshot_fixture\<lparr>dt_checksum := 3619791618\<rparr>]\<rparr>
     \<and> ke_message env UPDATE_FIXTURE = Some \<lparr>bm_kind = ''update'', bm_data = [update_fixture]\<rparr>
     \<and> ke_peek env STATUS_FIXTURE = Some \<lparr>pk_channel = Some ''status'', pk_method = None\<rparr>
     \<and> ke_peek env HEARTBEAT_FIXTURE = Some \<lparr>pk_channel = Some ''heartbeat'', pk_method = None\<rparr>
     \<and> ke_peek env SUBSCRIBE_ACK_SUCCESS_FIXTURE = Some \<lparr>pk_channel = None, pk_method = Some ''subscribe''\<rparr>
     \<and> ke_peek env SUBSCRIBE_ACK_FAILURE_FIXTURE = Some \<lparr>pk_channel = None, pk_method = Some ''subscribe''\<rparr>
     \<and> ke_peek env MALFORMED_JSON = None
     \<and> ke_crc32 env = crc32_ieee"

section \<open>The tests\<close>

text \<open>A call that must yield a book, and the rest of the test with the new state and the book.\<close>

definition parse_expect :: "kraken_env \<Rightarrow> kraken_state \<Rightarrow> string \<Rightarrow> stamps \<Rightarrow> (kraken_state \<Rightarrow> book \<Rightarrow> bool) \<Rightarrow> bool" where
  "parse_expect env held raw t P =
     (case kraken_parse env held raw t of Panic \<Rightarrow> False | Done (held, r) \<Rightarrow> expect r (P held))"

definition parse_none :: "kraken_env \<Rightarrow> kraken_state \<Rightarrow> string \<Rightarrow> stamps \<Rightarrow> (kraken_state \<Rightarrow> bool) \<Rightarrow> bool" where
  "parse_none env held raw t P =
     (case kraken_parse env held raw t of Panic \<Rightarrow> False | Done (held, r) \<Rightarrow> r = None \<and> P held)"

text \<open>\<open>any\<close> and \<open>find\<close> on the bids of a price.\<close>

definition has_bid :: "book \<Rightarrow> string \<Rightarrow> bool" where
  "has_bid book p = expect (price_parse p) (\<lambda>p. list_ex (\<lambda>l. price_eq (fst l) p) (bids book))"

definition bid_amount :: "book \<Rightarrow> string \<Rightarrow> amount option" where
  "bid_amount book p = (case price_parse p of
     None \<Rightarrow> None
   | Some p \<Rightarrow> map_option snd (List.find (\<lambda>l. price_eq (fst l) p) (bids book)))"

definition a_captured_snapshot_parses_into_a_complete_book :: "kraken_env \<Rightarrow> stamps \<Rightarrow> bool" where
  "a_captured_snapshot_parses_into_a_complete_book env t \<longleftrightarrow>
     parse_expect env kraken_new SNAPSHOT_FIXTURE t (\<lambda>_ book.
       length (bids book) = 10 \<and> length (asks book) = 10
       \<and> level_is (bids book ! 0) ''0.031348'' ''0.03740000''
       \<and> level_is (asks book ! 0) ''0.031357'' ''0.03740000'')"

definition a_captured_update_accumulates_onto_the_held_snapshot :: "kraken_env \<Rightarrow> stamps \<Rightarrow> bool" where
  "a_captured_update_accumulates_onto_the_held_snapshot env t \<longleftrightarrow>
     parse_expect env kraken_new SNAPSHOT_FIXTURE t (\<lambda>held _.
     parse_expect env held UPDATE_FIXTURE t (\<lambda>_ book.
       \<not> has_bid book ''0.031347''
       \<and> expect (bid_amount book ''0.031329'') (\<lambda>a. expect (amount_parse ''19.07893401'') (amount_eq a))))"

definition a_qty_of_zero_removes_that_price_level :: "kraken_env \<Rightarrow> stamps \<Rightarrow> bool" where
  "a_qty_of_zero_removes_that_price_level env t \<longleftrightarrow>
     parse_expect env kraken_new SNAPSHOT_FIXTURE t (\<lambda>held _.
     parse_expect env held SNAPSHOT_FIXTURE t (\<lambda>held before. has_bid before ''0.031347''
       \<and> parse_expect env held UPDATE_FIXTURE t (\<lambda>_ after. \<not> has_bid after ''0.031347'')))"

definition heartbeat_parses_to_none_without_panicking :: "kraken_env \<Rightarrow> stamps \<Rightarrow> bool" where
  "heartbeat_parses_to_none_without_panicking env t \<longleftrightarrow>
     parse_none env kraken_new HEARTBEAT_FIXTURE t (\<lambda>_. True)"

definition status_parses_to_none_without_panicking :: "kraken_env \<Rightarrow> stamps \<Rightarrow> bool" where
  "status_parses_to_none_without_panicking env t \<longleftrightarrow>
     parse_none env kraken_new STATUS_FIXTURE t (\<lambda>_. True)"

definition a_successful_subscribe_ack_parses_to_none_without_panicking :: "kraken_env \<Rightarrow> stamps \<Rightarrow> bool" where
  "a_successful_subscribe_ack_parses_to_none_without_panicking env t \<longleftrightarrow>
     parse_none env kraken_new SUBSCRIBE_ACK_SUCCESS_FIXTURE t (\<lambda>_. True)"

definition a_false_subscribe_ack_parses_to_none_without_panicking :: "kraken_env \<Rightarrow> stamps \<Rightarrow> bool" where
  "a_false_subscribe_ack_parses_to_none_without_panicking env t \<longleftrightarrow>
     parse_none env kraken_new SUBSCRIBE_ACK_FAILURE_FIXTURE t (\<lambda>_. True)"

definition kraken_malformed_json_parses_to_none_without_panicking :: "kraken_env \<Rightarrow> stamps \<Rightarrow> bool" where
  "kraken_malformed_json_parses_to_none_without_panicking env t \<longleftrightarrow>
     parse_none env kraken_new MALFORMED_JSON t (\<lambda>_. True)"

definition calling_parse_twice_with_the_same_update_double_applies_the_delta :: "kraken_env \<Rightarrow> stamps \<Rightarrow> bool" where
  "calling_parse_twice_with_the_same_update_double_applies_the_delta env t \<longleftrightarrow>
     parse_expect env kraken_new SNAPSHOT_FIXTURE t (\<lambda>held _.
     parse_expect env held UPDATE_FIXTURE t (\<lambda>held first.
     parse_expect env held UPDATE_FIXTURE t (\<lambda>_ second.
       list_all2 level_eq (bids first) (bids second) \<and> list_all2 level_eq (asks first) (asks second))))"

definition checksum_of_the_real_captured_snapshot_matches_krakens_own_value :: "kraken_env \<Rightarrow> stamps \<Rightarrow> bool" where
  "checksum_of_the_real_captured_snapshot_matches_krakens_own_value env t \<longleftrightarrow>
     (case ke_message env SNAPSHOT_FIXTURE of
        None \<Rightarrow> False
      | Some msg \<Rightarrow>
          (case bm_data msg of
             [] \<Rightarrow> False
           | data # _ \<Rightarrow> expect (from_snapshot data) (\<lambda>book.
               compute_checksum (ke_crc32 env) book = 3619791617)))
     \<and> parse_expect env kraken_new SNAPSHOT_FIXTURE t (\<lambda>_ _. True)"

definition a_corrupted_checksum_clears_the_held_book :: "kraken_env \<Rightarrow> stamps \<Rightarrow> bool" where
  "a_corrupted_checksum_clears_the_held_book env t \<longleftrightarrow>
     parse_none env kraken_new CORRUPTED t (\<lambda>held.
       parse_none env held UPDATE_FIXTURE t (\<lambda>_. True))"

definition a_fresh_snapshot_after_a_reconnect_replaces_prior_state_wholesale :: "kraken_env \<Rightarrow> stamps \<Rightarrow> bool" where
  "a_fresh_snapshot_after_a_reconnect_replaces_prior_state_wholesale env t \<longleftrightarrow>
     parse_expect env kraken_new SNAPSHOT_FIXTURE t (\<lambda>held _.
     parse_expect env held UPDATE_FIXTURE t (\<lambda>held _.
     parse_expect env held SNAPSHOT_FIXTURE t (\<lambda>_ book.
       has_bid book ''0.031347'' \<and> \<not> has_bid book ''0.031329'' \<and> length (bids book) = 10)))"

definition symbol_converter_splits_the_projects_default_pair :: bool where
  "symbol_converter_splits_the_projects_default_pair \<longleftrightarrow> to_kraken_symbol ''ethbtc'' = Some ''ETH/BTC''"

definition symbol_converter_returns_none_for_an_unknown_quote_currency :: bool where
  "symbol_converter_returns_none_for_an_unknown_quote_currency \<longleftrightarrow> to_kraken_symbol ''ethxyz'' = None"

definition kraken_subscribe_message_contains_the_converted_symbol :: bool where
  \<open>kraken_subscribe_message_contains_the_converted_symbol \<longleftrightarrow>
     expect (kraken_subscribe_message ''ethbtc'') (contains ''"symbol":["ETH/BTC"]'')\<close>


section \<open>The books held\<close>

definition held_snapshot :: kraken_book where
  "held_snapshot = \<lparr>
     kb_bids = [\<lparr>kl_price = 0x3fa00cd855970b4a, kl_price_raw = ''0.031348'', kl_qty = 0x3fa32617c1bda512, kl_qty_raw = ''0.03740000''\<rparr>,
                \<lparr>kl_price = 0x3fa00cb6c7a7c9de, kl_price_raw = ''0.031347'', kl_qty = 0x4006fba8c42eee80, kl_qty_raw = ''2.87288049''\<rparr>,
                \<lparr>kl_price = 0x3fa00c73abc94706, kl_price_raw = ''0.031345'', kl_qty = 0x402128e48072ac1a, kl_qty_raw = ''8.57986833''\<rparr>,
                \<lparr>kl_price = 0x3fa00c521dda059a, kl_price_raw = ''0.031344'', kl_qty = 0x402cce36a62f542b, kl_qty_raw = ''14.40276069''\<rparr>,
                \<lparr>kl_price = 0x3fa00bcbe61cffeb, kl_price_raw = ''0.031340'', kl_qty = 0x4029ebdb6af54160, kl_qty_raw = ''12.96065840''\<rparr>,
                \<lparr>kl_price = 0x3fa00baa582dbe7f, kl_price_raw = ''0.031339'', kl_qty = 0x402a6462af21c11b, kl_qty_raw = ''13.19606540''\<rparr>,
                \<lparr>kl_price = 0x3fa00b88ca3e7d13, kl_price_raw = ''0.031338'', kl_qty = 0x403469f4e671639b, kl_qty_raw = ''20.41389313''\<rparr>,
                \<lparr>kl_price = 0x3fa00b45ae5ffa3c, kl_price_raw = ''0.031336'', kl_qty = 0x3fa32617c1bda512, kl_qty_raw = ''0.03740000''\<rparr>,
                \<lparr>kl_price = 0x3fa00b0292817764, kl_price_raw = ''0.031334'', kl_qty = 0x402cbe3ff28949eb, kl_qty_raw = ''14.37158163''\<rparr>,
                \<lparr>kl_price = 0x3fa00abf76a2f48c, kl_price_raw = ''0.031332'', kl_qty = 0x402cd05d0c4a911e, kl_qty_raw = ''14.40695990''\<rparr>],
     kb_asks = [\<lparr>kl_price = 0x3fa00e0653005815, kl_price_raw = ''0.031357'', kl_qty = 0x3fa32617c1bda512, kl_qty_raw = ''0.03740000''\<rparr>,
                \<lparr>kl_price = 0x3fa00e27e0ef9980, kl_price_raw = ''0.031358'', kl_qty = 0x4006f9bff3a0762d, kl_qty_raw = ''2.87194815''\<rparr>,
                \<lparr>kl_price = 0x3fa00e8c8abd5dc4, kl_price_raw = ''0.031361'', kl_qty = 0x3f7f6df9adab7462, kl_qty_raw = ''0.00767324''\<rparr>,
                \<lparr>kl_price = 0x3fa00eae18ac9f30, kl_price_raw = ''0.031362'', kl_qty = 0x401115ebedcf50e1, kl_qty_raw = ''4.27140781''\<rparr>,
                \<lparr>kl_price = 0x3fa00ecfa69be09c, kl_price_raw = ''0.031363'', kl_qty = 0x401162294299829d, kl_qty_raw = ''4.34586052''\<rparr>,
                \<lparr>kl_price = 0x3fa00ef1348b2208, kl_price_raw = ''0.031364'', kl_qty = 0x403b47ee167389e5, kl_qty_raw = ''27.28097668''\<rparr>,
                \<lparr>kl_price = 0x3fa00f12c27a6373, kl_price_raw = ''0.031365'', kl_qty = 0x4029d8b5533383bb, kl_qty_raw = ''12.92325840''\<rparr>,
                \<lparr>kl_price = 0x3fa00f345069a4df, kl_price_raw = ''0.031366'', kl_qty = 0x4010925538c19287, kl_qty_raw = ''4.14290322''\<rparr>,
                \<lparr>kl_price = 0x3fa00f776c4827b7, kl_price_raw = ''0.031368'', kl_qty = 0x3f7e414bcfb737e5, kl_qty_raw = ''0.00738649''\<rparr>,
                \<lparr>kl_price = 0x3fa00fba8826aa8f, kl_price_raw = ''0.031370'', kl_qty = 0x3fa32617c1bda512, kl_qty_raw = ''0.03740000''\<rparr>]\<rparr>"

definition held_update :: kraken_book where
  "held_update = \<lparr>
     kb_bids = [\<lparr>kl_price = 0x3fa00cd855970b4a, kl_price_raw = ''0.031348'', kl_qty = 0x3fa32617c1bda512, kl_qty_raw = ''0.03740000''\<rparr>,
                \<lparr>kl_price = 0x3fa00c73abc94706, kl_price_raw = ''0.031345'', kl_qty = 0x402128e48072ac1a, kl_qty_raw = ''8.57986833''\<rparr>,
                \<lparr>kl_price = 0x3fa00c521dda059a, kl_price_raw = ''0.031344'', kl_qty = 0x402cce36a62f542b, kl_qty_raw = ''14.40276069''\<rparr>,
                \<lparr>kl_price = 0x3fa00bcbe61cffeb, kl_price_raw = ''0.031340'', kl_qty = 0x4029ebdb6af54160, kl_qty_raw = ''12.96065840''\<rparr>,
                \<lparr>kl_price = 0x3fa00baa582dbe7f, kl_price_raw = ''0.031339'', kl_qty = 0x402a6462af21c11b, kl_qty_raw = ''13.19606540''\<rparr>,
                \<lparr>kl_price = 0x3fa00b88ca3e7d13, kl_price_raw = ''0.031338'', kl_qty = 0x403469f4e671639b, kl_qty_raw = ''20.41389313''\<rparr>,
                \<lparr>kl_price = 0x3fa00b45ae5ffa3c, kl_price_raw = ''0.031336'', kl_qty = 0x3fa32617c1bda512, kl_qty_raw = ''0.03740000''\<rparr>,
                \<lparr>kl_price = 0x3fa00b0292817764, kl_price_raw = ''0.031334'', kl_qty = 0x402cbe3ff28949eb, kl_qty_raw = ''14.37158163''\<rparr>,
                \<lparr>kl_price = 0x3fa00abf76a2f48c, kl_price_raw = ''0.031332'', kl_qty = 0x402cd05d0c4a911e, kl_qty_raw = ''14.40695990''\<rparr>,
                \<lparr>kl_price = 0x3fa00a5accd53049, kl_price_raw = ''0.031329'', kl_qty = 0x4033143504ef7dfd, kl_qty_raw = ''19.07893401''\<rparr>],
     kb_asks = [\<lparr>kl_price = 0x3fa00e0653005815, kl_price_raw = ''0.031357'', kl_qty = 0x3fa32617c1bda512, kl_qty_raw = ''0.03740000''\<rparr>,
                \<lparr>kl_price = 0x3fa00e27e0ef9980, kl_price_raw = ''0.031358'', kl_qty = 0x4006f9bff3a0762d, kl_qty_raw = ''2.87194815''\<rparr>,
                \<lparr>kl_price = 0x3fa00e8c8abd5dc4, kl_price_raw = ''0.031361'', kl_qty = 0x3f7f6df9adab7462, kl_qty_raw = ''0.00767324''\<rparr>,
                \<lparr>kl_price = 0x3fa00eae18ac9f30, kl_price_raw = ''0.031362'', kl_qty = 0x401115ebedcf50e1, kl_qty_raw = ''4.27140781''\<rparr>,
                \<lparr>kl_price = 0x3fa00ecfa69be09c, kl_price_raw = ''0.031363'', kl_qty = 0x401162294299829d, kl_qty_raw = ''4.34586052''\<rparr>,
                \<lparr>kl_price = 0x3fa00ef1348b2208, kl_price_raw = ''0.031364'', kl_qty = 0x403b47ee167389e5, kl_qty_raw = ''27.28097668''\<rparr>,
                \<lparr>kl_price = 0x3fa00f12c27a6373, kl_price_raw = ''0.031365'', kl_qty = 0x4029d8b5533383bb, kl_qty_raw = ''12.92325840''\<rparr>,
                \<lparr>kl_price = 0x3fa00f345069a4df, kl_price_raw = ''0.031366'', kl_qty = 0x4010925538c19287, kl_qty_raw = ''4.14290322''\<rparr>,
                \<lparr>kl_price = 0x3fa00f776c4827b7, kl_price_raw = ''0.031368'', kl_qty = 0x3f7e414bcfb737e5, kl_qty_raw = ''0.00738649''\<rparr>,
                \<lparr>kl_price = 0x3fa00fba8826aa8f, kl_price_raw = ''0.031370'', kl_qty = 0x3fa32617c1bda512, kl_qty_raw = ''0.03740000''\<rparr>]\<rparr>"

lemma snapshot_held: "from_snapshot snapshot_fixture = Some held_snapshot"
  by code_simp

lemma update_held: "apply_update held_snapshot update_fixture = (held_update, Some ())"
  by code_simp

lemma update_held_again: "apply_update held_update update_fixture = (held_update, Some ())"
  by code_simp

lemma held_checksums:
  "compute_checksum crc32_ieee held_snapshot = 3619791617"
  "compute_checksum crc32_ieee held_update = 2505869009"
  by code_simp+

lemma held_parse: "book_parses held_snapshot" "book_parses held_update"
  using from_snapshot_inv(1) [OF snapshot_held] apply_update_inv(1) [OF _ update_held] by (simp_all add: book_inv_def)

lemma fixture_checksums:
  "dt_checksum snapshot_fixture = 3619791617" "dt_checksum update_fixture = 2505869009"
  by (simp_all add: snapshot_fixture_def update_fixture_def)

definition shown :: "kraken_book \<Rightarrow> stamps \<Rightarrow> book" where
  "shown kb t = \<lparr>bids = map pair_of (kb_bids kb), asks = map pair_of (kb_asks kb), last_update_id = 0,
     parse_started_at = fst t, parsed_at = snd t\<rparr>"

text \<open>What each captured text does.\<close>

lemma captured_parses:
  assumes "decodes_captured env"
  shows "kraken_parse env held SNAPSHOT_FIXTURE t = Done (Some held_snapshot, Some (shown held_snapshot t))"
    "kraken_parse env (Some held_snapshot) UPDATE_FIXTURE t = Done (Some held_update, Some (shown held_update t))"
    "kraken_parse env (Some held_update) UPDATE_FIXTURE t = Done (Some held_update, Some (shown held_update t))"
    "kraken_parse env held CORRUPTED t = Done (None, None)"
    "kraken_parse env None UPDATE_FIXTURE t = Done (None, None)"
proof -
  have "from_snapshot (snapshot_fixture\<lparr>dt_checksum := c\<rparr>) = Some held_snapshot" for c
    using snapshot_held by (simp add: from_snapshot_def cong: option.case_cong)
  then show "kraken_parse env held SNAPSHOT_FIXTURE t = Done (Some held_snapshot, Some (shown held_snapshot t))"
    "kraken_parse env (Some held_snapshot) UPDATE_FIXTURE t = Done (Some held_update, Some (shown held_update t))"
    "kraken_parse env (Some held_update) UPDATE_FIXTURE t = Done (Some held_update, Some (shown held_update t))"
    "kraken_parse env held CORRUPTED t = Done (None, None)"
    "kraken_parse env None UPDATE_FIXTURE t = Done (None, None)"
    using assms
    by (simp_all add: decodes_captured_def kraken_parse_def book_peek_def parse_book_message_def kraken_snapshot_def
        kraken_update_def snapshot_held update_held update_held_again held_checksums fixture_checksums
        to_model_book_parses held_parse shown_def)
qed

text \<open>The look of the two books, whatever the clock showed.\<close>

lemma shown_facts:
  "length (bids (shown held_snapshot t)) = 10" "length (asks (shown held_snapshot t)) = 10"
  "level_is (bids (shown held_snapshot t) ! 0) ''0.031348'' ''0.03740000''"
  "level_is (asks (shown held_snapshot t) ! 0) ''0.031357'' ''0.03740000''"
  "has_bid (shown held_snapshot t) ''0.031347''" "\<not> has_bid (shown held_snapshot t) ''0.031329''"
  "\<not> has_bid (shown held_update t) ''0.031347''"
  "expect (bid_amount (shown held_update t) ''0.031329'') (\<lambda>a. expect (amount_parse ''19.07893401'') (amount_eq a))"
  "list_all2 level_eq (bids (shown held_update t)) (bids (shown held_update t))"
  "list_all2 level_eq (asks (shown held_update t)) (asks (shown held_update t))"
  by code_simp+

lemma kraken_book_tests_pass:
  assumes "decodes_captured env"
  shows "a_captured_snapshot_parses_into_a_complete_book env t"
    "a_captured_update_accumulates_onto_the_held_snapshot env t"
    "a_qty_of_zero_removes_that_price_level env t"
    "calling_parse_twice_with_the_same_update_double_applies_the_delta env t"
    "a_corrupted_checksum_clears_the_held_book env t"
    "a_fresh_snapshot_after_a_reconnect_replaces_prior_state_wholesale env t"
  unfolding a_captured_snapshot_parses_into_a_complete_book_def
    a_captured_update_accumulates_onto_the_held_snapshot_def a_qty_of_zero_removes_that_price_level_def
    calling_parse_twice_with_the_same_update_double_applies_the_delta_def
    a_corrupted_checksum_clears_the_held_book_def
    a_fresh_snapshot_after_a_reconnect_replaces_prior_state_wholesale_def
  using shown_facts by (simp_all add: parse_expect_def parse_none_def kraken_new_def captured_parses [OF assms])

lemma kraken_checksum_test_passes:
  assumes "decodes_captured env"
  shows "checksum_of_the_real_captured_snapshot_matches_krakens_own_value env t"
  using assms captured_parses(1) [OF assms]
  by (simp add: checksum_of_the_real_captured_snapshot_matches_krakens_own_value_def decodes_captured_def
      snapshot_held held_checksums parse_expect_def)

lemma kraken_other_tests_pass:
  assumes "decodes_captured env"
  shows "heartbeat_parses_to_none_without_panicking env t" "status_parses_to_none_without_panicking env t"
    "a_successful_subscribe_ack_parses_to_none_without_panicking env t"
    "a_false_subscribe_ack_parses_to_none_without_panicking env t"
    "kraken_malformed_json_parses_to_none_without_panicking env t"
  using assms
  by (simp_all add: decodes_captured_def parse_none_def kraken_parse_def
      heartbeat_parses_to_none_without_panicking_def status_parses_to_none_without_panicking_def
      a_successful_subscribe_ack_parses_to_none_without_panicking_def
      a_false_subscribe_ack_parses_to_none_without_panicking_def
      kraken_malformed_json_parses_to_none_without_panicking_def)

lemma kraken_symbol_tests_pass:
  "symbol_converter_splits_the_projects_default_pair"
  "symbol_converter_returns_none_for_an_unknown_quote_currency"
  "kraken_subscribe_message_contains_the_converted_symbol"
  by code_simp+

section \<open>Properties\<close>

text \<open>Libraries that decode the captured texts, used to witness the property.\<close>

definition captured_env :: kraken_env where
  "captured_env = \<lparr>
     ke_peek = (\<lambda>raw.
       if raw \<in> {SNAPSHOT_FIXTURE, UPDATE_FIXTURE, CORRUPTED} then Some book_peek
       else if raw = STATUS_FIXTURE then Some \<lparr>pk_channel = Some ''status'', pk_method = None\<rparr>
       else if raw = HEARTBEAT_FIXTURE then Some \<lparr>pk_channel = Some ''heartbeat'', pk_method = None\<rparr>
       else if raw \<in> {SUBSCRIBE_ACK_SUCCESS_FIXTURE, SUBSCRIBE_ACK_FAILURE_FIXTURE}
       then Some \<lparr>pk_channel = None, pk_method = Some ''subscribe''\<rparr> else None),
     ke_message = (\<lambda>raw.
       if raw = SNAPSHOT_FIXTURE then Some \<lparr>bm_kind = ''snapshot'', bm_data = [snapshot_fixture]\<rparr>
       else if raw = CORRUPTED then Some \<lparr>bm_kind = ''snapshot'', bm_data = [snapshot_fixture\<lparr>dt_checksum := 3619791618\<rparr>]\<rparr>
       else if raw = UPDATE_FIXTURE then Some \<lparr>bm_kind = ''update'', bm_data = [update_fixture]\<rparr>
       else None),
     ke_crc32 = crc32_ieee\<rparr>"

lemma captured_heads:
  "distinct (map (take 60) [SNAPSHOT_FIXTURE, UPDATE_FIXTURE, STATUS_FIXTURE, HEARTBEAT_FIXTURE,
     SUBSCRIBE_ACK_SUCCESS_FIXTURE, SUBSCRIBE_ACK_FAILURE_FIXTURE, MALFORMED_JSON])"
  "take 60 CORRUPTED = take 60 SNAPSHOT_FIXTURE" "drop 820 CORRUPTED \<noteq> drop 820 SNAPSHOT_FIXTURE"
  by (simp_all add: SNAPSHOT_FIXTURE_def UPDATE_FIXTURE_def STATUS_FIXTURE_def HEARTBEAT_FIXTURE_def
      SUBSCRIBE_ACK_SUCCESS_FIXTURE_def SUBSCRIBE_ACK_FAILURE_FIXTURE_def MALFORMED_JSON_def CORRUPTED_def)

lemma captured_distinct:
  "distinct (CORRUPTED # [SNAPSHOT_FIXTURE, UPDATE_FIXTURE, STATUS_FIXTURE, HEARTBEAT_FIXTURE,
     SUBSCRIBE_ACK_SUCCESS_FIXTURE, SUBSCRIBE_ACK_FAILURE_FIXTURE, MALFORMED_JSON])" (is "distinct (_ # ?xs)")
proof -
  have inj: "distinct ?xs" "inj_on (take 60) (set ?xs)"
    using captured_heads(1) unfolding distinct_map by blast+
  have "SNAPSHOT_FIXTURE \<in> set ?xs" by simp
  with inj(2) captured_heads(2,3) have "CORRUPTED \<notin> set ?xs" by (metis inj_onD)
  with inj(1) show ?thesis by (metis distinct.simps(2))
qed

lemma captured_env_decodes: "decodes_captured captured_env"
  using captured_distinct distinct_rev [THEN iffD2, OF captured_distinct]
  by (simp add: decodes_captured_def captured_env_def)

text \<open>
  C38. On a snapshot and an update captured live from Kraken the model computes the exchange's own
  checksums, with the real CRC-32 over the digits as they came: the snapshot yields its ten
  levels a side, the update removes the level of quantity zero and adds the new one, applied
  again it changes nothing, and a corrupted checksum drops the book.
\<close>

theorem kraken_captured_messages:
  assumes "decodes_captured env"
  shows "\<exists>kb b kb' b'. kraken_parse env kraken_new SNAPSHOT_FIXTURE t = Done (Some kb, Some b)
    \<and> compute_checksum (ke_crc32 env) kb = 3619791617 \<and> length (bids b) = 10 \<and> length (asks b) = 10
    \<and> has_bid b ''0.031347'' \<and> \<not> has_bid b ''0.031329''
    \<and> kraken_parse env (Some kb) UPDATE_FIXTURE t' = Done (Some kb', Some b')
    \<and> compute_checksum (ke_crc32 env) kb' = 2505869009
    \<and> \<not> has_bid b' ''0.031347'' \<and> expect (bid_amount b' ''0.031329'') (\<lambda>a. expect (amount_parse ''19.07893401'') (amount_eq a))
    \<and> kraken_parse env (Some kb') UPDATE_FIXTURE t' = Done (Some kb', Some b')
    \<and> kraken_parse env (Some kb') CORRUPTED t = Done (None, None)"
proof -
  have "ke_crc32 env = crc32_ieee" using assms by (simp add: decodes_captured_def)
  then show ?thesis
    using shown_facts captured_parses [OF assms] held_checksums
    by (intro exI [of _ held_snapshot] exI [of _ "shown held_snapshot t"] exI [of _ held_update]
        exI [of _ "shown held_update t'"]) simp
qed

theorem kraken_captured_messages_witness:
  "\<exists>kb b. kraken_parse captured_env kraken_new SNAPSHOT_FIXTURE (0, 1) = Done (Some kb, Some b)
     \<and> compute_checksum crc32_ieee kb = 3619791617"
proof -
  have "ke_crc32 captured_env = crc32_ieee" by (simp add: captured_env_def)
  with kraken_captured_messages [OF captured_env_decodes, of "(0, 1)" "(2, 3)"] show ?thesis by force
qed

end
