(* ===== verification/Spec2Isabelle.thy ===== *)
theory Spec2Isabelle
  imports History Spread End_To_End Load_Test Tests_Merge Tests_Kraken
begin

text \<open>
  A verification library for \<^verbatim>\<open>rust-crypto-orderbook\<close>, a service that streams the merged order
  book of three exchanges over gRPC.

  \<^bold>\<open>The program.\<close> Three feed tasks (\<^verbatim>\<open>src/feed.rs\<close>), one for each implementor of the \<open>Exchange\<close>
  trait (\<^verbatim>\<open>src/exchange/*.rs\<close>), connect to a venue, directly or through an HTTP proxy
  (\<^verbatim>\<open>src/proxy.rs\<close>), parse its messages into books (\<^verbatim>\<open>src/model.rs\<close>) and send them to the
  aggregator task (\<^verbatim>\<open>src/aggregator.rs\<close>). It keeps the last book of every venue, merges the fresh
  ones (\<^verbatim>\<open>src/merge.rs\<close>) and publishes each new summary into a watch channel, which the gRPC service
  (\<^verbatim>\<open>src/server.rs\<close>) streams to its subscribers, among them the terminal client
  (\<^verbatim>\<open>src/bin/client.rs\<close>) and the load test (\<^verbatim>\<open>src/bin/loadtest.rs\<close>). \<^verbatim>\<open>src/main.rs\<close> reads the
  configuration (\<^verbatim>\<open>src/config.rs\<close>), sets up logging (\<^verbatim>\<open>src/telemetry.rs\<close>), joins the tasks by a
  channel of 32 messages, starts them and ends the process with the first task that ends.

  \<^bold>\<open>The language and its standard library.\<close>
    \<^item> \<open>Prelude\<close>: machine words, instants and durations as nanoseconds, \<open>outcome\<close> (a value, or a
      panic), orderings, stable sorting by a comparator, bit lengths.
    \<^item> \<open>F64\<close>, \<open>F64_Round\<close>: \<open>f64\<close> as its 64 bits, with the IEEE comparisons, \<open>total_cmp\<close>, rounding to
      nearest even and the arithmetic the sources use; what is exact and what is monotone.
    \<^item> \<open>Rust_Str\<close>: splitting, number parsing and formatting on byte strings.
    \<^item> \<open>Rust_Time\<close>: \<open>Duration\<close> against \<open>f64\<close>. \<open>BTree\<close>: \<open>BTreeMap\<close> as a sorted association list,
      against a locale of map laws.

  \<^bold>\<open>The program's parts.\<close>
    \<^item> \<open>Model\<close>: \<open>Price\<close>, \<open>Amount\<close>, \<open>Book\<close>. Eight-decimal prices survive parsing and display; where
      the derived equality and \<open>Ord\<close> disagree.
    \<^item> \<open>Exchange\<close>: \<open>Venue\<close> with its constants; the trait as a record of operations over the
      implementor's state, and its contract as the locale \<open>exchange_contract\<close> (parsing never
      panics and keeps the invariant), which each venue's theory interprets.
    \<^item> \<open>Binance_Feed\<close>, \<open>Bitstamp_Feed\<close>: parsing is all or nothing over the levels of a payload.
    \<^item> \<open>Kraken_Book\<close>, \<open>Kraken_Spec\<close>, \<open>Kraken_Feed\<close>: the held book and its incremental updates,
      refined against a finite map; a published book matched its checksum, is sorted and at most
      ten deep; a mismatch, of a snapshot or an update, silences the venue until the next
      snapshot, and a snapshot resynchronises it whatever came before; what an update with a bad
      level leaves behind, on either side.
    \<^item> \<open>Merge\<close>: the cursor merge equals the first ten levels of the stable sort of all levels.
      \<open>Spread\<close>: the spread of eight-decimal prices is the exact decimal difference, correctly
      rounded, negative for a crossed book; with a bound of \<open>2\<^sup>4\<^sup>9\<close> units of the eighth decimal,
      where the rounding of the subtraction is still less than half a unit.
    \<^item> \<open>Aggregator_Task\<close>: the task's state and loop as a function of the list of events that
      \<open>select!\<close> takes, in any order. Published summaries merge exactly the fresh venues and differ
      from their neighbours; when the task gives up; the numbers of its reports.
    \<^item> \<open>Reconnect\<close>: backoff, jitter and token bucket. The jitter's range; over its whole life the
      bucket holds at least nothing and at most its capacity, to the last bit of its floats; a
      token comes within two seconds.
    \<^item> \<open>Proxy\<close>: the proxy address and the CONNECT handshake over arbitrarily cut reads, against a
      byte-by-byte reference; reading the answer ends when the stream stops.
    \<^item> \<open>Config\<close>: settings, command line, and the outcome of the supervised tasks. \<open>Telemetry\<close>: the
      tracing subscriber and the TLS provider, each installed once in process-wide state whose
      laws are a locale. \<open>Bind_Addr\<close>: the start of \<open>main\<close>, with the standard library's parser of
      socket addresses; which settings are used, what is bound, what is refused.
    \<^item> \<open>Feed_Driver\<close>: the connection cycle and its loop as traces. The lemmas hold for every
      exchange that meets the contract and are read off at the three venues: no panic whatever the
      network does, every connection is followed by the next, sleeps are bounded and follow the
      schedule, books are forwarded in order, the subscription is the first frame. \<open>Feed_Books\<close>
      extends the contract by a property of the parsed books, which then holds of every book a
      feed hands on over any number of connections.
    \<^item> \<open>Client\<close>: statistics, venue tracking and the drawing of frames. Frames have a fixed height,
      coloured rows a fixed width, and a coloured cell shows on a terminal what the plain cell
      says; the terminal is a small interpreter of the escapes.
    \<^item> \<open>Service\<close>: every summary of a run is well-formed, and a client draws any subsequence of them.
      \<open>Watch_Service\<close>: \<open>src/server.rs\<close>, with any number of subscribers that call, poll and leave in
      any order. A call brings the summaries from the current one on, in their order; it stays
      open, every poll brings it up to date, and no subscriber affects another.
    \<^item> \<open>System\<close>: the process. The feeds, the aggregator, the server and \<open>main\<close> are a step relation
      over the state they share, with the bounded channel a locale of its documented laws. For
      every interleaving: nothing is lost, repeated or reordered between feeds and aggregator and
      at most 32 books wait; from every state the waiting books can all arrive; a published
      summary merges the last fresh books, each parsed by its venue's feed; and what \<open>main\<close> returns
      for each way the process can end, written out in \<open>process_end\<close>. It starts from the arguments and the environment (\<open>main_process\<close>) without a panic.
    \<^item> \<open>History\<close>: an abstract specification of the process without state: what it has published is
      computed from the events its aggregator took, and every reachable state refines it.
    \<^item> \<open>End_To_End\<close>: a summary that reaches a subscriber of the process merges the books that were
      fresh at some moment, each parsed by its own venue's feed, and its client draws it.
    \<^item> \<open>Load_Test\<close>: the load test's clients, interleaved; its counter is the sum of what each received.

  \<^bold>\<open>The repository's tests.\<close> \<open>Tests_Core\<close>, \<open>Tests_Feeds\<close>, \<open>Tests_Merge\<close> and \<open>Tests_Kraken\<close> state the
  unit tests that stand beside the code as booleans over the model, and prove that the model
  passes them. Kraken's use messages captured from the live exchange: with the CRC-32 computed
  from its polynomial, the model's checksum text hashes to the values Kraken sent. The JSON of a fixture
  enters as the value its deserializer returns.

  \<^bold>\<open>Conventions.\<close> \<open>Instant::now()\<close>, random numbers, the environment, sockets and websockets are
  arguments: functions or finite lists of what each call returns. A loop over such a list is a
  structural recursion; where the list ends the code is still waiting, which is a value of its
  own (None, or no exit). Loops that end by themselves (the merge, the header reader, the
  decimal conversions) are total functions with a measure; no fuel is used. Panics are the
  value \<open>Panic\<close>; \<open>Result\<close> is a sum or an option. The serde deserializers, \<open>crc32fast\<close>,
  \<open>hdrhistogram\<close>, the channels and the tracing and TLS libraries are parameters. The documented
  laws of the bounded channel, the watch channel and the process-wide state are locales,
  interpreted on a list with a capacity, a value with a version, and a pair of cells; that a
  subscriber sees a subsequence of what was published is proved from them. In the step relation a
  feed is the trace of its run: other tasks only make it wait, and its clock readings are
  arguments already, so the trace does not depend on the waiting.
  Durations and instants are unbounded, so overflow past \<open>2\<^sup>6\<^sup>4\<close> seconds is
  not modelled; counters are 64-bit words and wrap.

  \<^bold>\<open>What modelling showed.\<close> A Kraken update with an unparseable level leaves the levels before it
  applied, unchecked (\<open>kraken_update_half_applied\<close>). The derived equality of prices is not the
  equality of their order (\<open>price_eq_cmp\<close>). Applying a Kraken update twice changes nothing, where
  the module's comment fears it does (\<open>kraken_update_idempotent\<close>). The grace period is a second
  shorter than the backoff cycle its comment says it covers. From a price of 1000 on, a cell of
  the client is wider than its columns, and on a terminal the venue's name is cut
  (\<open>coloured_cell_paints\<close>). The proxy's reader drops bytes that arrive in the same read after the
  blank line, which is harmless while the client speaks first, as in TLS. \<open>RUST_LOG\<close> does not
  override the configured level where it is not a valid filter (\<open>main_start_binds\<close>).

  \<^bold>\<open>Not modelled.\<close> The parsing of the arguments, which clap generates from attributes (the parsed
  arguments are an argument of \<open>main_process\<close>); TLS itself; the Ctrl-C handler of the client's
  \<open>main\<close>; the transport of tonic and the content of its reflection service, whose construction is
  the parameter of \<open>router\<close>; the module declarations of
  \<^verbatim>\<open>src/lib.rs\<close> and the code generator call in \<^verbatim>\<open>build.rs\<close>. Log messages have no effect on the state
  and are left out, except the aggregator's report, whose numbers are computed. The integration
  tests under \<^verbatim>\<open>tests/\<close> run the binary and sockets and are not restated.
\<close>

end
